theory Spec2Isabelle
  imports Main "HOL-Library.Sublist" "HOL-Library.Char_ord" "HOL-Library.List_Lexorder"
begin

section \<open>Exceptions and source text\<close>

text \<open>
  The C++ code signals failure by throwing. \<open>SolidityUpgrade::tryCompile\<close> tells three
  kinds of exception apart by its three handlers: \<open>dev::Exception\<close> (shown through
  \<open>boost::diagnostic_information\<close>, carried here as that text), \<open>std::exception\<close>
  (shown through \<open>what()\<close>, which the handler tests for a null pointer) and anything else.
  A computation that may throw returns \<open>Thrown + 'a\<close>, \<open>Inl\<close> for the exception.
\<close>

datatype Thrown =
    DevException string
  | StdException "string option"
  | UnknownException

text \<open>
  \<open>SourceLocation\<close> holds \<open>int start\<close>, \<open>int end\<close> and the character stream of the
  file. The rules pass \<open>start\<close> and \<open>end - start\<close> to \<open>std::string::substr\<close>, whose
  parameters are \<open>size_t\<close>: a negative \<open>int\<close> wraps around modulo \<open>2 ^ 64\<close>.
\<close>

definition to_size_t :: "int \<Rightarrow> nat" where
  "to_size_t i = nat (i mod 2 ^ 64)"

text \<open>
  \<open>std::string::substr(pos, n)\<close> throws \<open>std::out_of_range\<close> when \<open>pos > size()\<close> and
  otherwise returns at most \<open>n\<close> characters from \<open>pos\<close> on.
\<close>

definition substr :: "string \<Rightarrow> nat \<Rightarrow> nat \<Rightarrow> Thrown + string" where
  "substr s pos n =
     (if length s < pos then Inl (StdException (Some ''basic_string::substr''))
      else Inr (take n (drop pos s)))"

record SourceLocation =
  loc_start :: int
  loc_end :: int
  loc_source :: string

text \<open>
  The text the rules cut out of a location:
  \<open>location.source->source().substr(location.start, location.end - location.start)\<close>.
\<close>

definition locationText :: "SourceLocation \<Rightarrow> Thrown + string" where
  "locationText l =
     substr (loc_source l) (to_size_t (loc_start l)) (to_size_t (loc_end l - loc_start l))"

text \<open>
  A location as the parser produces it: a byte range inside its file, within \<open>int\<close>.
\<close>

definition validLocation :: "SourceLocation \<Rightarrow> bool" where
  "validLocation l =
     (0 \<le> loc_start l \<and> loc_start l \<le> loc_end l \<and> loc_end l \<le> int (length (loc_source l))
      \<and> loc_end l < 2 ^ 31)"

section \<open>The two regular expressions of the layout heuristic\<close>

text \<open>
  \<open>util::isMultiline\<close> searches for \<open>(\bK\b$)\<close> and \<open>util::placeAfterFunctionHeaderKeyword\<close>
  replaces \<open>(\bK\b)\<close>, where \<open>K\<close> is the header keyword spliced into the pattern. The
  callers pass a visibility keyword, a word of letters, so the pattern is the literal \<open>K\<close>
  between two word boundaries; the model covers such keywords (a non-empty \<open>K\<close> without
  pattern metacharacters). Both patterns are built with the default flags of \<open>std::regex\<close>:
  the ECMAScript grammar without \<open>multiline\<close>, where \<open>$\<close> matches at the end of the
  searched text only. A word character is a letter, a digit or the underscore.
\<close>

definition isWordChar :: "char \<Rightarrow> bool" where
  "isWordChar c =
     (let n = (of_char c :: nat)
      in (48 \<le> n \<and> n \<le> 57) \<or> (65 \<le> n \<and> n \<le> 90) \<or> (97 \<le> n \<and> n \<le> 122) \<or> n = 95)"

text \<open>
  \<open>\b\<close> at a position, given the character before it (if any) and the rest of the text:
  exactly one of the two neighbours is a word character.
\<close>

definition wordBoundary :: "char option \<Rightarrow> string \<Rightarrow> bool" where
  "wordBoundary prev rest =
     ((case prev of None \<Rightarrow> False | Some c \<Rightarrow> isWordChar c)
        \<noteq> (case rest of [] \<Rightarrow> False | c # _ \<Rightarrow> isWordChar c))"

text \<open>\<open>\bK\b\<close> matches at the position whose rest is \<open>s\<close>.\<close>

definition matchesKeywordAt :: "string \<Rightarrow> char option \<Rightarrow> string \<Rightarrow> bool" where
  "matchesKeywordAt K prev s =
     (K \<noteq> [] \<and> prefix K s \<and> wordBoundary prev s
      \<and> wordBoundary (Some (last K)) (drop (length K) s))"

text \<open>
  \<open>regex_search\<close> with \<open>(\bK\b$)\<close>: some position matches \<open>\bK\b\<close> and the match ends the
  text.
\<close>

fun searchKeywordAtEnd :: "string \<Rightarrow> char option \<Rightarrow> string \<Rightarrow> bool" where
  "searchKeywordAtEnd K prev [] = False"
| "searchKeywordAtEnd K prev (c # cs) =
     ((matchesKeywordAt K prev (c # cs) \<and> drop (length K) (c # cs) = [])
      \<or> searchKeywordAtEnd K (Some c) cs)"

definition isMultiline :: "string \<Rightarrow> string \<Rightarrow> bool" where
  "isMultiline functionSource keyword = searchKeywordAtEnd keyword None functionSource"

text \<open>
  \<open>regex_replace\<close> with \<open>(\bK\b)\<close>: the text is scanned from the left, every match is
  replaced by the format text and the scan goes on behind the match; everything else is
  copied. The format text of the callers has no \<open>$\<close>, so it is copied as it is.
\<close>

function replaceKeyword :: "string \<Rightarrow> string \<Rightarrow> char option \<Rightarrow> string \<Rightarrow> string" where
  "replaceKeyword K fmt prev s =
     (if s = [] then []
      else if matchesKeywordAt K prev s
        then fmt @ replaceKeyword K fmt (Some (last K)) (drop (length K) s)
      else hd s # replaceKeyword K fmt (Some (hd s)) (tl s))"
  by pat_completeness auto
termination
  by (relation "measure (\<lambda>(K, fmt, prev, s). length s)")
     (auto simp: matchesKeywordAt_def)

text \<open>The function on the extracted text, and on a location as the source has it.\<close>

definition placeInText :: "string \<Rightarrow> string \<Rightarrow> string \<Rightarrow> string" where
  "placeInText codeBefore headerKeyword keyword =
     (let toAppend = (if isMultiline codeBefore headerKeyword
                      then CHR ''\<newline>'' # keyword else CHR '' '' # keyword)
      in replaceKeyword headerKeyword (headerKeyword @ toAppend) None codeBefore)"

definition placeAfterFunctionHeaderKeyword ::
  "SourceLocation \<Rightarrow> string \<Rightarrow> string \<Rightarrow> Thrown + string" where
  "placeAfterFunctionHeaderKeyword location headerKeyword keyword =
     (case locationText location of
        Inl ex \<Rightarrow> Inl ex
      | Inr codeBefore \<Rightarrow> Inr (placeInText codeBefore headerKeyword keyword))"

section \<open>The change record\<close>

datatype Level = Safe | Unsafe

text \<open>
  \<open>UpgradeChange\<close>: the constructor copies the whole text of the location's file into
  \<open>m_source\<close>.
\<close>

record UpgradeChange =
  m_location :: SourceLocation
  m_source :: string
  m_patch :: string
  m_level :: Level

definition UpgradeChange :: "Level \<Rightarrow> SourceLocation \<Rightarrow> string \<Rightarrow> UpgradeChange" where
  "UpgradeChange level location patch =
     \<lparr> m_location = location, m_source = loc_source location, m_patch = patch,
       m_level = level \<rparr>"

text \<open>
  Modelled from the spec: \<open>UpgradeChange::apply\<close> is declared in UpgradeChange.h and its
  body is not among the sources. The spec: it replaces the byte range [start, end) of the
  source text with the replacement text, and no error path models a failing patch.
\<close>

definition apply_change :: "UpgradeChange \<Rightarrow> UpgradeChange" where
  "apply_change c =
     c \<lparr> m_source :=
           take (to_size_t (loc_start (m_location c))) (m_source c) @ m_patch c
             @ drop (to_size_t (loc_end (m_location c))) (m_source c) \<rparr>"

section \<open>The syntax tree\<close>

text \<open>
  The tree is the front end's. The model keeps the node kinds the rules visit and, of each
  node, what the rules read: locations, the declaration's flags and the annotations the
  analysis has left on it.
\<close>

datatype Visibility = Private | Internal | Public | External

text \<open>
  Modelled from the spec: \<open>Declaration::visibilityToString\<close> belongs to the tree and is
  not among the sources. The spec calls its result the visibility keyword of the function
  header: the keyword of the language for each visibility.
\<close>

fun visibilityToString :: "Visibility \<Rightarrow> string" where
  "visibilityToString Public = ''public''"
| "visibilityToString Internal = ''internal''"
| "visibilityToString Private = ''private''"
| "visibilityToString External = ''external''"

text \<open>
  Expressions: a member access carries whether the type of its inner expression is an
  \<open>ArrayType\<close>, the member's name and the annotation \<open>lValueRequested\<close>; an assignment
  carries its location and its two sides.
\<close>

datatype Expression =
    Identifier string
  | Literal string
  | MemberAccess Expression bool string bool
  | Assignment SourceLocation Expression Expression
  | BinaryOperation Expression Expression

record FunctionDefinition =
  fn_location :: SourceLocation
  fn_name :: string
  isConstructor :: bool
  visibility :: Visibility
  parameterTypes :: "string list"
  overrides :: bool
  virtualSemantics :: bool
  fn_body :: "Expression list"

text \<open>
  A contract: \<open>unimplementedFunctions\<close> is the annotation of that name (the names of the
  functions left without a body), \<open>definedFunctions\<close> the functions declared in the contract,
  and \<open>inheritedEqualRange f\<close> what \<open>ContractLevelChecker\<close> (the front end's, outside the
  sources) answers for the contract after \<open>check\<close>:
  \<open>inheritedFunctions(&_contract).equal_range(f)\<close>, the inherited functions that its
  ordering does not tell apart from \<open>f\<close>.
\<close>

record ContractDefinition =
  ct_location :: SourceLocation
  abstract :: bool
  isInterface :: bool
  unimplementedFunctions :: "string list"
  definedFunctions :: "FunctionDefinition list"
  inheritedEqualRange :: "FunctionDefinition \<Rightarrow> FunctionDefinition list"

record SourceUnit =
  contracts :: "ContractDefinition list"

text \<open>
  Modelled from the spec: \<open>FunctionType::hasEqualParameterTypes\<close> belongs to the front
  end and is not among the sources. The spec speaks of the same signature: the two
  functions have the same parameter types, one by one.
\<close>

definition hasEqualParameterTypes :: "FunctionDefinition \<Rightarrow> FunctionDefinition \<Rightarrow> bool" where
  "hasEqualParameterTypes f g = (parameterTypes f = parameterTypes g)"

section \<open>The detection rules\<close>

text \<open>
  Every rule appends to the vector \<open>m_changes\<close> it was constructed with. A rule that
  throws leaves no vector behind: the caller's vector is a local of the function the
  exception unwinds.
\<close>

type_synonym Changes = "UpgradeChange list"

text \<open>
  A loop over a sequence whose body appends to the vector and may throw: the exception
  ends the loop.
\<close>

fun for_each :: "('n \<Rightarrow> Changes \<Rightarrow> Thrown + Changes) \<Rightarrow> 'n list \<Rightarrow> Changes \<Rightarrow> Thrown + Changes" where
  "for_each body [] changes = Inr changes"
| "for_each body (node # rest) changes =
     (case body node changes of
        Inl ex \<Rightarrow> Inl ex
      | Inr changes1 \<Rightarrow> for_each body rest changes1)"

definition AbstractContract_endVisit :: "ContractDefinition \<Rightarrow> Changes \<Rightarrow> Thrown + Changes" where
  "AbstractContract_endVisit contract changes =
     (let isFullyImplemented = (unimplementedFunctions contract = [])
      in if \<not> isFullyImplemented \<and> \<not> abstract contract \<and> \<not> isInterface contract
         then (case locationText (ct_location contract) of
                 Inl ex \<Rightarrow> Inl ex
               | Inr codeBefore \<Rightarrow>
                   Inr (changes @
                     [UpgradeChange Safe (ct_location contract) (''abstract '' @ codeBefore)]))
         else Inr changes)"

text \<open>
  \<open>OverridingFunction::endVisit\<close> is two nested loops. The body of the inner one, over
  \<open>funcSet.equal_range(function)\<close>, for one inherited function \<open>super\<close>; then the body
  of the outer one, over \<open>_contract.definedFunctions()\<close>; then the function itself.
\<close>

definition OverridingFunction_super ::
  "FunctionDefinition \<Rightarrow> FunctionDefinition \<Rightarrow> Changes \<Rightarrow> Thrown + Changes" where
  "OverridingFunction_super function super changes =
     (case (if hasEqualParameterTypes function super \<and> \<not> overrides function
            then (case placeAfterFunctionHeaderKeyword (fn_location function)
                         (visibilityToString (visibility function)) ''override'' of
                    Inl ex \<Rightarrow> Inl ex
                  | Inr codeAfter \<Rightarrow>
                      Inr (changes @ [UpgradeChange Unsafe (fn_location function) codeAfter]))
            else Inr changes) of
        Inl ex \<Rightarrow> Inl ex
      | Inr changes1 \<Rightarrow>
          (if \<not> virtualSemantics super
           then (case placeAfterFunctionHeaderKeyword (fn_location function)
                        (visibilityToString (visibility function)) ''virtual'' of
                   Inl ex \<Rightarrow> Inl ex
                 | Inr codeAfter \<Rightarrow>
                     Inr (changes1 @ [UpgradeChange Unsafe (fn_location function) codeAfter]))
           else Inr changes1))"

definition OverridingFunction_function ::
  "ContractDefinition \<Rightarrow> FunctionDefinition \<Rightarrow> Changes \<Rightarrow> Thrown + Changes" where
  "OverridingFunction_function contract function changes =
     (if \<not> isConstructor function
      then for_each (OverridingFunction_super function) (inheritedEqualRange contract function)
             changes
      else Inr changes)"

definition OverridingFunction_endVisit :: "ContractDefinition \<Rightarrow> Changes \<Rightarrow> Thrown + Changes" where
  "OverridingFunction_endVisit contract changes =
     for_each (OverridingFunction_function contract) (definedFunctions contract) changes"

definition VirtualFunction_endVisit :: "FunctionDefinition \<Rightarrow> Changes \<Rightarrow> Thrown + Changes" where
  "VirtualFunction_endVisit function changes =
     (if \<not> virtualSemantics function
      then (case placeAfterFunctionHeaderKeyword (fn_location function)
                   (visibilityToString (visibility function)) ''virtual'' of
              Inl ex \<Rightarrow> Inl ex
            | Inr codeAfter \<Rightarrow>
                Inr (changes @ [UpgradeChange Unsafe (fn_location function) codeAfter]))
      else Inr changes)"

text \<open>
  \<open>ArrayLength::endVisit\<close> on an assignment. The local \<open>patch\<close> is computed with
  \<open>substr(location.start, location.end)\<close> and never used; the call can still throw.
\<close>

fun ArrayLength_endVisit :: "Expression \<Rightarrow> Changes \<Rightarrow> Thrown + Changes" where
  "ArrayLength_endVisit (Assignment location (MemberAccess e isArrayType memberName lValueRequested) rhs)
       changes =
     (if isArrayType \<and> memberName = ''length'' \<and> lValueRequested
      then (case substr (loc_source location) (to_size_t (loc_start location))
                   (to_size_t (loc_end location)) of
              Inl ex \<Rightarrow> Inl ex
            | Inr patch \<Rightarrow> Inr (changes @ [UpgradeChange Unsafe location []]))
      else Inr changes)"
| "ArrayLength_endVisit e changes = Inr changes"

subsection \<open>Traversal\<close>

text \<open>
  \<open>analyze\<close> of a rule is \<open>_sourceUnit.accept(*this)\<close>: the visitor walks the tree and calls
  the rule's \<open>endVisit\<close> on every node of its kind, a node after its children. A source
  unit holds its contracts in source order and a contract its functions; assignments sit
  in the expressions of the function bodies.
\<close>

definition functionNodes :: "SourceUnit \<Rightarrow> FunctionDefinition list" where
  "functionNodes sourceUnit = concat (map definedFunctions (contracts sourceUnit))"

text \<open>The assignments of an expression in the order of their \<open>endVisit\<close> calls.\<close>

fun assignmentsIn :: "Expression \<Rightarrow> Expression list" where
  "assignmentsIn (Identifier x) = []"
| "assignmentsIn (Literal x) = []"
| "assignmentsIn (MemberAccess e a m l) = assignmentsIn e"
| "assignmentsIn (Assignment loc lhs rhs) =
     assignmentsIn lhs @ assignmentsIn rhs @ [Assignment loc lhs rhs]"
| "assignmentsIn (BinaryOperation l r) = assignmentsIn l @ assignmentsIn r"

definition assignmentNodes :: "SourceUnit \<Rightarrow> Expression list" where
  "assignmentNodes sourceUnit =
     concat (map (\<lambda>f. concat (map assignmentsIn (fn_body f))) (functionNodes sourceUnit))"

definition AbstractContract_analyze :: "SourceUnit \<Rightarrow> Changes \<Rightarrow> Thrown + Changes" where
  "AbstractContract_analyze sourceUnit changes =
     for_each AbstractContract_endVisit (contracts sourceUnit) changes"

definition OverridingFunction_analyze :: "SourceUnit \<Rightarrow> Changes \<Rightarrow> Thrown + Changes" where
  "OverridingFunction_analyze sourceUnit changes =
     for_each OverridingFunction_endVisit (contracts sourceUnit) changes"

definition VirtualFunction_analyze :: "SourceUnit \<Rightarrow> Changes \<Rightarrow> Thrown + Changes" where
  "VirtualFunction_analyze sourceUnit changes =
     for_each VirtualFunction_endVisit (functionNodes sourceUnit) changes"

definition ArrayLength_analyze :: "SourceUnit \<Rightarrow> Changes \<Rightarrow> Thrown + Changes" where
  "ArrayLength_analyze sourceUnit changes =
     for_each ArrayLength_endVisit (assignmentNodes sourceUnit) changes"

text \<open>
  \<open>Upgrade060::analyze\<close>, the catalog: three rules in this order on one vector. The text
  \<open>_source\<close> it is given goes to the rules' constructors and is read by none of them.
\<close>

definition Upgrade060_analyze :: "SourceUnit \<Rightarrow> string \<Rightarrow> Changes \<Rightarrow> Thrown + Changes" where
  "Upgrade060_analyze sourceUnit source changes =
     (case AbstractContract_analyze sourceUnit changes of
        Inl ex \<Rightarrow> Inl ex
      | Inr changes1 \<Rightarrow>
          (case OverridingFunction_analyze sourceUnit changes1 of
             Inl ex \<Rightarrow> Inl ex
           | Inr changes2 \<Rightarrow> VirtualFunction_analyze sourceUnit changes2))"

section \<open>The front end, as the driver sees it\<close>

text \<open>
  \<open>CompilerStack\<close> is the front end's and outside the sources. The driver uses the
  operations below; each is a parameter of the model, on a compiler object of any type
  \<open>'c\<close>. \<open>parse\<close>, \<open>analyze\<close>, \<open>compile\<close> and \<open>ast\<close> may throw. \<open>parse\<close> also resolves
  imports through the read callback that \<open>processInput\<close> installs, and that callback
  stores every file it reads in \<open>m_sourceCodes\<close>: \<open>cs_parse\<close> returns these files with its
  result.
\<close>

text \<open>
  Modelled from the spec: \<open>CompilerStack::State\<close>, the pipeline-progress signal of the
  front end, in the order the driver compares it by, and the severity of a diagnostic, of
  which the driver tells \<open>Warning\<close> from the rest.
\<close>

datatype State = Empty | SourcesSet | ParsingPerformed | AnalysisPerformed | CompilationSuccessful

fun stateRank :: "State \<Rightarrow> nat" where
  "stateRank Empty = 0"
| "stateRank SourcesSet = 1"
| "stateRank ParsingPerformed = 2"
| "stateRank AnalysisPerformed = 3"
| "stateRank CompilationSuccessful = 4"

datatype ErrorType = Warning | DeclarationError | ParserError | SyntaxError | TypeError

record Error =
  err_type :: ErrorType
  err_message :: string

type_synonym Sources = "(string \<times> string) list"

record 'c CompilerStack =
  cs_create :: "'c"
  cs_reset :: "'c \<Rightarrow> 'c"
  cs_setSources :: "Sources \<Rightarrow> 'c \<Rightarrow> 'c"
  cs_setParserErrorRecovery :: "bool \<Rightarrow> 'c \<Rightarrow> 'c"
  cs_parse :: "'c \<Rightarrow> (Thrown + bool) \<times> Sources \<times> 'c"
  cs_analyze :: "'c \<Rightarrow> (Thrown + bool) \<times> 'c"
  cs_compile :: "'c \<Rightarrow> (Thrown + unit) \<times> 'c"
  cs_state :: "'c \<Rightarrow> State"
  cs_errors :: "'c \<Rightarrow> Error list"
  cs_ast :: "'c \<Rightarrow> string \<Rightarrow> Thrown + SourceUnit"

section \<open>The driver\<close>

text \<open>
  \<open>m_sourceCodes\<close> is a \<open>std::map\<close> from path to text: the model keeps it as a list of
  pairs in the order of the keys, which is the order the loops walk it in, and
  \<open>assign\<close> is \<open>m[key] = value\<close>. \<open>files\<close> is the disk. \<open>history\<close> lists in order what the
  run has done: the text it wrote to the console and the operations it carried out.
\<close>

record Args =
  acceptSafe :: bool
  acceptUnsafe :: bool
  shortLog :: bool

datatype Event =
    Print string
  | LogChange UpgradeChange bool
  | PrintErrorInformation Error
  | CatalogRun string
  | ChangeApplied string UpgradeChange
  | FileWritten string string
  | SetSources Sources

record 'c SolidityUpgrade =
  m_args :: Args
  m_sourceCodes :: Sources
  m_compiler :: 'c
  files :: "string \<Rightarrow> string option"
  history :: "Event list"

fun assign :: "string \<Rightarrow> string \<Rightarrow> Sources \<Rightarrow> Sources" where
  "assign k v [] = [(k, v)]"
| "assign k v ((k', v') # m) =
     (if k = k' then (k, v) # m
      else if k < k' then (k, v) # (k', v') # m
      else (k', v') # assign k v m)"

definition emit :: "Event \<Rightarrow> 'c SolidityUpgrade \<Rightarrow> 'c SolidityUpgrade" where
  "emit e s = s \<lparr> history := history s @ [e] \<rparr>"

definition printNonWarnings :: "'c CompilerStack \<Rightarrow> 'c SolidityUpgrade \<Rightarrow> 'c SolidityUpgrade" where
  "printNonWarnings cs s =
     fold (\<lambda>error s'. if err_type error \<noteq> Warning then emit (PrintErrorInformation error) s' else s')
       (cs_errors cs (m_compiler s)) s"

definition printErrors :: "'c CompilerStack \<Rightarrow> 'c SolidityUpgrade \<Rightarrow> 'c SolidityUpgrade" where
  "printErrors cs s =
     printNonWarnings cs
       (emit (Print ''Compilation errors that solidity-upgrade may resolve occurred.'') s)"

definition printUnresolvableErrors :: "'c CompilerStack \<Rightarrow> 'c SolidityUpgrade \<Rightarrow> 'c SolidityUpgrade" where
  "printUnresolvableErrors cs s =
     printNonWarnings cs
       (emit (Print ''Compilation errors that solidity-upgrade cannot resolve occurred.'') s)"

text \<open>The two overloads of \<open>resetCompiler\<close>.\<close>

definition resetCompiler :: "'c CompilerStack \<Rightarrow> 'c SolidityUpgrade \<Rightarrow> 'c SolidityUpgrade" where
  "resetCompiler cs s =
     emit (SetSources (m_sourceCodes s))
       (s \<lparr> m_compiler :=
             cs_setParserErrorRecovery cs True
               (cs_setSources cs (m_sourceCodes s) (cs_reset cs (m_compiler s))) \<rparr>)"

definition resetCompiler_callback :: "'c CompilerStack \<Rightarrow> 'c SolidityUpgrade \<Rightarrow> 'c SolidityUpgrade" where
  "resetCompiler_callback cs s =
     emit (SetSources (m_sourceCodes s))
       (s \<lparr> m_compiler :=
             cs_setParserErrorRecovery cs True
               (cs_setSources cs (m_sourceCodes s) (cs_create cs)) \<rparr>)"

text \<open>
  The \<open>try\<close> block of \<open>tryCompile\<close>: what it returns is the exception that left it, if any,
  and the state it has reached by then.
\<close>

definition tryCompile_body ::
  "'c CompilerStack \<Rightarrow> 'c SolidityUpgrade \<Rightarrow> (Thrown + unit) \<times> 'c SolidityUpgrade" where
  "tryCompile_body cs s =
     (case cs_parse cs (m_compiler s) of
        (parsed, readFiles, c1) \<Rightarrow>
          (let s1 = s \<lparr> m_compiler := c1,
                        m_sourceCodes := fold (\<lambda>(path, contents). assign path contents) readFiles
                                           (m_sourceCodes s) \<rparr>
           in case parsed of
                Inl ex \<Rightarrow> (Inl ex, s1)
              | Inr True \<Rightarrow>
                  (case cs_analyze cs c1 of
                     (analyzed, c2) \<Rightarrow>
                       (let s2 = s1 \<lparr> m_compiler := c2 \<rparr>
                        in case analyzed of
                             Inl ex \<Rightarrow> (Inl ex, s2)
                           | Inr True \<Rightarrow>
                               (case cs_compile cs c2 of
                                  (compiled, c3) \<Rightarrow> (compiled, s2 \<lparr> m_compiler := c3 \<rparr>))
                           | Inr False \<Rightarrow> (Inr (), printErrors cs s2)))
              | Inr False \<Rightarrow> (Inr (), printUnresolvableErrors cs s1)))"

text \<open>The text each of the three handlers of \<open>tryCompile\<close> prints.\<close>

fun exceptionText :: "Thrown \<Rightarrow> string" where
  "exceptionText (DevException info) = ''Exception during compilation: '' @ info"
| "exceptionText (StdException (Some what)) = '': '' @ what"
| "exceptionText (StdException None) = ''.''"
| "exceptionText UnknownException = ''Unknown exception during compilation.''"

definition tryCompile ::
  "'c CompilerStack \<Rightarrow> 'c SolidityUpgrade \<Rightarrow> (Thrown + unit) \<times> 'c SolidityUpgrade" where
  "tryCompile cs s =
     (case tryCompile_body cs (emit (Print ''Running compilation phases...'') s) of
        (Inr u, s') \<Rightarrow> (Inr (), s')
      | (Inl (DevException info), s') \<Rightarrow>
          (Inr (), emit (Print (exceptionText (DevException info))) s')
      | (Inl (StdException what), s') \<Rightarrow>
          (Inr (), emit (Print (exceptionText (StdException what))) s')
      | (Inl UnknownException, s') \<Rightarrow>
          (Inr (), emit (Print (exceptionText UnknownException)) s'))"

definition writeInputFile :: "string \<Rightarrow> string \<Rightarrow> 'c SolidityUpgrade \<Rightarrow> 'c SolidityUpgrade" where
  "writeInputFile path source s =
     emit (FileWritten path source)
       ((emit (Print (''Writing to input file '' @ path @ ''...'')) s)
          \<lparr> files := (files s)(path \<mapsto> source) \<rparr>)"

definition analyzeAndLog ::
  "'c CompilerStack \<Rightarrow> string \<times> string \<Rightarrow> 'c SolidityUpgrade
     \<Rightarrow> (Thrown + unit) \<times> 'c SolidityUpgrade" where
  "analyzeAndLog cs sourceCode s =
     (let s0 = emit (Print (''Analyzing '' @ fst sourceCode @ ''...'')) s
      in case (if stateRank AnalysisPerformed \<le> stateRank (cs_state cs (m_compiler s0))
               then (case cs_ast cs (m_compiler s0) (fst sourceCode) of
                       Inl ex \<Rightarrow> (Inl ex, s0)
                     | Inr sourceUnit \<Rightarrow>
                         (Upgrade060_analyze sourceUnit (snd sourceCode) [],
                          emit (CatalogRun (fst sourceCode)) s0))
               else (Inr [], s0)) of
           (Inl ex, s1) \<Rightarrow> (Inl ex, s1)
         | (Inr changes, s1) \<Rightarrow>
             (Inr (),
              if changes \<noteq> []
              then fold (\<lambda>change. emit (LogChange change (shortLog (m_args s)))) changes
                     (emit (Print ''Found upgrades which can be done by solidity-upgrade automatically.'') s1)
              else s1))"

text \<open>The lambda \<open>applyChanges\<close> of \<open>analyzeAndUpgrade\<close>.\<close>

definition applyChanges ::
  "string \<times> string \<Rightarrow> UpgradeChange \<Rightarrow> 'c SolidityUpgrade \<Rightarrow> 'c SolidityUpgrade" where
  "applyChanges sourceCode change s =
     (let applied = apply_change change;
          s1 = emit (ChangeApplied (fst sourceCode) change) s;
          s2 = s1 \<lparr> m_sourceCodes := assign (fst sourceCode) (m_source applied) (m_sourceCodes s1) \<rparr>
      in writeInputFile (fst sourceCode) (m_source applied) s2)"

definition analyzeAndUpgrade ::
  "'c CompilerStack \<Rightarrow> string \<times> string \<Rightarrow> 'c SolidityUpgrade
     \<Rightarrow> (Thrown + bool \<times> bool) \<times> 'c SolidityUpgrade" where
  "analyzeAndUpgrade cs sourceCode s =
     (let s0 = emit (Print (''Analyzing and upgrading '' @ fst sourceCode @ ''...'')) s
      in case cs_ast cs (m_compiler s0) (fst sourceCode) of
           Inl ex \<Rightarrow> (Inl ex, s0)
         | Inr sourceUnit \<Rightarrow>
             (let s1 = emit (CatalogRun (fst sourceCode)) s0
              in case Upgrade060_analyze sourceUnit (snd sourceCode) [] of
                   Inl ex \<Rightarrow> (Inl ex, s1)
                 | Inr [] \<Rightarrow> (Inr (False, False), s1)
                 | Inr (change # others) \<Rightarrow>
                     (let s2 = emit (LogChange change (shortLog (m_args s))) s1
                      in if m_level change = Safe
                         then (if acceptSafe (m_args s)
                               then (Inr (True, True), applyChanges sourceCode change s2)
                               else (Inr (False, False), s2))
                         else if m_level change = Unsafe
                         then (if acceptUnsafe (m_args s)
                               then (Inr (True, True), applyChanges sourceCode change s2)
                               else (Inr (False, False), s2))
                         else (Inr (False, False), s2))))"

text \<open>
  The \<open>for\<close> loop of \<open>acceptUpgrade\<close> over the files still to visit, with the variables
  \<open>recompile\<close> and \<open>changesFound\<close> it updates; \<open>break\<close> ends it.
\<close>

fun forSourceCodes ::
  "'c CompilerStack \<Rightarrow> Sources \<Rightarrow> bool \<Rightarrow> bool \<Rightarrow> 'c SolidityUpgrade
     \<Rightarrow> (Thrown + bool \<times> bool) \<times> 'c SolidityUpgrade" where
  "forSourceCodes cs [] recompile changesFound s = (Inr (recompile, changesFound), s)"
| "forSourceCodes cs (sourceCode # rest) recompile changesFound s =
     (case analyzeAndUpgrade cs sourceCode s of
        (Inl ex, s1) \<Rightarrow> (Inl ex, s1)
      | (Inr result, s1) \<Rightarrow>
          (if fst result then (Inr (fst result, changesFound \<or> snd result), s1)
           else forSourceCodes cs rest (fst result) (changesFound \<or> snd result) s1))"

text \<open>
  One pass through the body of the \<open>while\<close> loop: it returns the new values of
  \<open>recompile\<close> and \<open>terminate\<close>.
\<close>

definition acceptUpgrade_iteration ::
  "'c CompilerStack \<Rightarrow> bool \<Rightarrow> 'c SolidityUpgrade
     \<Rightarrow> (Thrown + bool \<times> bool) \<times> 'c SolidityUpgrade" where
  "acceptUpgrade_iteration cs recompile s =
     (case forSourceCodes cs (m_sourceCodes s) recompile False s of
        (Inl ex, s1) \<Rightarrow> (Inl ex, s1)
      | (Inr (recompile1, changesFound), s1) \<Rightarrow>
          (let terminate = \<not> changesFound
           in if recompile1
              then (case tryCompile cs (resetCompiler cs s1) of
                      (Inl ex, s2) \<Rightarrow> (Inl ex, s2)
                    | (Inr u, s2) \<Rightarrow> (Inr (recompile1, terminate), s2))
              else (Inr (recompile1, terminate), s1)))"

text \<open>
  The \<open>while\<close> loop has no bound on its iterations: a run that never leaves it has the
  value \<open>None\<close>.
\<close>

partial_function (option) acceptUpgrade_loop ::
  "'c CompilerStack \<Rightarrow> bool \<Rightarrow> bool \<Rightarrow> 'c SolidityUpgrade
     \<Rightarrow> ((Thrown + unit) \<times> 'c SolidityUpgrade) option" where
  "acceptUpgrade_loop cs recompile terminate s =
     (if \<not> terminate \<and> cs_errors cs (m_compiler s) \<noteq> []
      then (case acceptUpgrade_iteration cs recompile s of
              (Inl ex, s1) \<Rightarrow> Some (Inl ex, s1)
            | (Inr (recompile1, terminate1), s1) \<Rightarrow> acceptUpgrade_loop cs recompile1 terminate1 s1)
      else Some (Inr (), s))"

declare acceptUpgrade_loop.simps [code]

definition acceptUpgrade ::
  "'c CompilerStack \<Rightarrow> 'c SolidityUpgrade \<Rightarrow> ((Thrown + unit) \<times> 'c SolidityUpgrade) option" where
  "acceptUpgrade cs s = acceptUpgrade_loop cs False False s"

text \<open>The loop of the dry run: \<open>analyzeAndLog\<close> on every entry of \<open>m_sourceCodes\<close>.\<close>

fun analyzeAndLog_each ::
  "'c CompilerStack \<Rightarrow> Sources \<Rightarrow> 'c SolidityUpgrade \<Rightarrow> (Thrown + unit) \<times> 'c SolidityUpgrade" where
  "analyzeAndLog_each cs [] s = (Inr (), s)"
| "analyzeAndLog_each cs (sourceCode # rest) s =
     (case analyzeAndLog cs sourceCode s of
        (Inl ex, s1) \<Rightarrow> (Inl ex, s1)
      | (Inr u, s1) \<Rightarrow> analyzeAndLog_each cs rest s1)"

text \<open>
  \<open>processInput\<close> from the point where \<open>readInputFiles\<close> has filled \<open>m_sourceCodes\<close>:
  the first compilation, then the branch ``apply changes one-by-one or log them only'',
  then the closing message.
\<close>

definition applyOrLog ::
  "'c CompilerStack \<Rightarrow> 'c SolidityUpgrade \<Rightarrow> ((Thrown + unit) \<times> 'c SolidityUpgrade) option" where
  "applyOrLog cs s =
     (if acceptSafe (m_args s) \<or> acceptUnsafe (m_args s)
      then acceptUpgrade cs s
      else Some (analyzeAndLog_each cs (m_sourceCodes s) s))"

definition processInput ::
  "'c CompilerStack \<Rightarrow> 'c SolidityUpgrade \<Rightarrow> ((Thrown + bool) \<times> 'c SolidityUpgrade) option" where
  "processInput cs s =
     (case tryCompile cs (resetCompiler_callback cs s) of
        (Inl ex, s1) \<Rightarrow> Some (Inl ex, s1)
      | (Inr u, s1) \<Rightarrow>
          (case applyOrLog cs s1 of
             None \<Rightarrow> None
           | Some (Inl ex, s2) \<Rightarrow> Some (Inl ex, s2)
           | Some (Inr u, s2) \<Rightarrow>
               Some (Inr True,
                 if stateRank CompilationSuccessful \<le> stateRank (cs_state cs (m_compiler s2))
                    \<or> cs_errors cs (m_compiler s2) = []
                 then emit (Print ''No errors or upgrades found!'') s2
                 else s2)))"

section \<open>Notions the properties are stated with\<close>

text \<open>
  A keyword as the callers of the layout heuristic pass it: a non-empty word of word
  characters.
\<close>

definition isKeyword :: "string \<Rightarrow> bool" where
  "isKeyword K = (K \<noteq> [] \<and> list_all isWordChar K)"

definition isLineTerminator :: "char \<Rightarrow> bool" where
  "isLineTerminator c = (c = CHR ''\<newline>'' \<or> c = CHR 0x0D)"

text \<open>
  The visibility keyword as a whole word somewhere in a text: \<open>regex_search\<close> with
  \<open>(\bK\b)\<close>, given the character before the text (if any). Some position of the text
  matches.
\<close>

fun occursAsWord :: "string \<Rightarrow> char option \<Rightarrow> string \<Rightarrow> bool" where
  "occursAsWord K prev [] = False"
| "occursAsWord K prev (c # cs) = (matchesKeywordAt K prev (c # cs) \<or> occursAsWord K (Some c) cs)"

text \<open>The bytes [start, end) of a location's file: the text of the declaration.\<close>

definition declarationText :: "SourceLocation \<Rightarrow> string" where
  "declarationText l =
     take (nat (loc_end l - loc_start l)) (drop (nat (loc_start l)) (loc_source l))"

text \<open>
  The trigger of the Abstractness rule in the words of the spec: at least one
  unimplemented member, not declared abstract, not an interface. And the record the spec
  expects for such a contract.
\<close>

definition needsAbstract :: "ContractDefinition \<Rightarrow> bool" where
  "needsAbstract c = (unimplementedFunctions c \<noteq> [] \<and> \<not> abstract c \<and> \<not> isInterface c)"

definition abstractRecord :: "ContractDefinition \<Rightarrow> UpgradeChange" where
  "abstractRecord c =
     \<lparr> m_location = ct_location c, m_source = loc_source (ct_location c),
       m_patch = ''abstract '' @ declarationText (ct_location c), m_level = Safe \<rparr>"

text \<open>A tree whose contracts and functions all have valid locations.\<close>

definition wellFormedUnit :: "SourceUnit \<Rightarrow> bool" where
  "wellFormedUnit su =
     list_all (\<lambda>c. validLocation (ct_location c)
                 \<and> list_all (\<lambda>f. validLocation (fn_location f)) (definedFunctions c))
       (contracts su)"

text \<open>
  The record the spec expects of the Override-annotation rule for a function whose text is
  \<open>pre\<close>, the visibility keyword, \<open>post\<close>: located at the function, Unsafe, and its
  replacement the text with a blank and \<open>override\<close> behind the visibility keyword.
\<close>

definition overrideRecord :: "FunctionDefinition \<Rightarrow> string \<Rightarrow> string \<Rightarrow> UpgradeChange" where
  "overrideRecord f pre post =
     \<lparr> m_location = fn_location f, m_source = loc_source (fn_location f),
       m_patch = pre @ visibilityToString (visibility f) @ '' override'' @ post,
       m_level = Unsafe \<rparr>"

definition isSafe :: "UpgradeChange \<Rightarrow> bool" where
  "isSafe r = (m_level r = Safe)"

definition isUnsafe :: "UpgradeChange \<Rightarrow> bool" where
  "isUnsafe r = (m_level r = Unsafe)"


text \<open>What a stretch of the history holds: applications, file writes, runs of the catalog.\<close>

fun isChangeApplied :: "Event \<Rightarrow> bool" where
  "isChangeApplied (ChangeApplied path change) = True"
| "isChangeApplied e = False"

fun isFileWritten :: "Event \<Rightarrow> bool" where
  "isFileWritten (FileWritten path text) = True"
| "isFileWritten e = False"

fun catalogRuns :: "Event list \<Rightarrow> string list" where
  "catalogRuns [] = []"
| "catalogRuns (CatalogRun path # es) = path # catalogRuns es"
| "catalogRuns (e # es) = catalogRuns es"

text \<open>What a run has added to the history of the state it started from.\<close>

definition added :: "'c SolidityUpgrade \<Rightarrow> 'c SolidityUpgrade \<Rightarrow> Event list" where
  "added s s' = drop (length (history s)) (history s')"

text \<open>
  The finding of a file that the caller's flags accept: the first record of the catalog's
  list for the file's tree, when the tree is to be had, the catalog returns, and the level
  of that first record is one the caller accepts.
\<close>

definition acceptedFinding ::
  "'c CompilerStack \<Rightarrow> Args \<Rightarrow> 'c \<Rightarrow> string \<times> string \<Rightarrow> UpgradeChange option" where
  "acceptedFinding cs args compiler sourceCode =
     (case cs_ast cs compiler (fst sourceCode) of
        Inl ex \<Rightarrow> None
      | Inr sourceUnit \<Rightarrow>
          (case Upgrade060_analyze sourceUnit (snd sourceCode) [] of
             Inl ex \<Rightarrow> None
           | Inr [] \<Rightarrow> None
           | Inr (change # others) \<Rightarrow>
               (if (m_level change = Safe \<and> acceptSafe args)
                   \<or> (m_level change = Unsafe \<and> acceptUnsafe args)
                then Some change else None)))"






text \<open>
  A stretch of history that neither applies a change, writes a file nor runs the catalog.
\<close>

definition quiet :: "Event list \<Rightarrow> bool" where
  "quiet es = (filter isChangeApplied es = [] \<and> filter isFileWritten es = [] \<and> catalogRuns es = [])"



text \<open>
  The assignments the spec's Array-length-write rule is about: the left-hand side is a
  \<open>.length\<close> member access on an array in lvalue position. \<open>lengthWrites\<close> lists their
  locations in the order of the traversal, and \<open>lengthWriteRecord\<close> is the record the
  spec expects for one of them.
\<close>

fun lengthWriteAt :: "Expression \<Rightarrow> SourceLocation option" where
  "lengthWriteAt (Assignment location (MemberAccess e isArrayType memberName lValueRequested) rhs) =
     (if isArrayType \<and> memberName = ''length'' \<and> lValueRequested then Some location else None)"
| "lengthWriteAt e = None"

definition lengthWrites :: "SourceUnit \<Rightarrow> SourceLocation list" where
  "lengthWrites su = List.map_filter lengthWriteAt (assignmentNodes su)"

definition lengthWriteRecord :: "SourceLocation \<Rightarrow> UpgradeChange" where
  "lengthWriteRecord location =
     \<lparr> m_location = location, m_source = loc_source location, m_patch = [], m_level = Unsafe \<rparr>"

section \<open>Examples\<close>

definition exampleLocation :: "int \<Rightarrow> int \<Rightarrow> string \<Rightarrow> SourceLocation" where
  "exampleLocation a b text = \<lparr> loc_start = a, loc_end = b, loc_source = text \<rparr>"

text \<open>
  A small front end for the examples. It parses a file that ends with a closing brace, and
  reads every file as one contract that spans the file, has one unimplemented function
  \<open>f\<close> declared at offset 13 of the contract's body text, and is abstract when the file
  starts with that keyword. Its analysis reports an error for every contract that should
  be abstract and is not.
\<close>

definition miniTree :: "string \<Rightarrow> SourceUnit" where
  "miniTree text =
     (let shift = (if prefix ''abstract '' text then 9 else 0)
      in \<lparr> contracts =
            [\<lparr> ct_location = exampleLocation 0 (int (length text)) text,
               abstract = prefix ''abstract '' text,
               isInterface = False,
               unimplementedFunctions = [''f''],
               definedFunctions =
                 [\<lparr> fn_location = exampleLocation (shift + 13) (shift + 33) text,
                    fn_name = ''f'', isConstructor = False, visibility = Public,
                    parameterTypes = [], overrides = False, virtualSemantics = False,
                    fn_body = [] \<rparr>],
               inheritedEqualRange = (\<lambda>f. []) \<rparr>] \<rparr>)"

record MiniCompiler =
  mc_sources :: Sources
  mc_state :: State
  mc_errors :: "Error list"

definition miniFrontEnd :: "MiniCompiler CompilerStack" where
  "miniFrontEnd =
     \<lparr> cs_create = \<lparr> mc_sources = [], mc_state = Empty, mc_errors = [] \<rparr>,
       cs_reset = (\<lambda>c. \<lparr> mc_sources = [], mc_state = Empty, mc_errors = [] \<rparr>),
       cs_setSources = (\<lambda>sources c. c \<lparr> mc_sources := sources, mc_state := SourcesSet \<rparr>),
       cs_setParserErrorRecovery = (\<lambda>b c. c),
       cs_parse = (\<lambda>c.
         if list_all (\<lambda>(path, text). text \<noteq> [] \<and> last text = CHR ''}'') (mc_sources c)
         then (Inr True, [], c \<lparr> mc_state := ParsingPerformed \<rparr>)
         else (Inr False, [],
               c \<lparr> mc_errors := [\<lparr> err_type = ParserError, err_message = ''Expected }'' \<rparr>] \<rparr>)),
       cs_analyze = (\<lambda>c.
         let errors = map (\<lambda>(path, text). \<lparr> err_type = TypeError,
                              err_message = ''Contract should be marked as abstract.'' \<rparr>)
                        (filter (\<lambda>(path, text). \<not> prefix ''abstract '' text) (mc_sources c))
         in (Inr (errors = []), c \<lparr> mc_state := AnalysisPerformed, mc_errors := errors \<rparr>)),
       cs_compile = (\<lambda>c. (Inr (), c \<lparr> mc_state := CompilationSuccessful \<rparr>)),
       cs_state = mc_state,
       cs_errors = mc_errors,
       cs_ast = (\<lambda>c path.
         if stateRank (mc_state c) < stateRank ParsingPerformed
         then Inl (DevException ''Parsing not yet performed.'')
         else (case map_of (mc_sources c) path of
                 None \<Rightarrow> Inl (DevException ''Given source file not found.'')
               | Some text \<Rightarrow> Inr (miniTree text))) \<rparr>"


definition exampleSource :: string where
  "exampleSource = ''contract C { function f() public; }''"

definition upgradedSource :: string where
  "upgradedSource = ''abstract contract C { function f() public; }''"

definition brokenSource :: string where
  "brokenSource = ''contract C {''"

text \<open>The driver once \<open>readInputFiles\<close> has loaded the files.\<close>

definition loaded :: "Args \<Rightarrow> Sources \<Rightarrow> MiniCompiler SolidityUpgrade" where
  "loaded args sources =
     \<lparr> m_args = args, m_sourceCodes = sources, m_compiler = cs_create miniFrontEnd,
       files = map_of sources, history = [] \<rparr>"

text \<open>The driver after the first compilation of \<open>processInput\<close>.\<close>

definition compiled :: "Args \<Rightarrow> Sources \<Rightarrow> MiniCompiler SolidityUpgrade" where
  "compiled args sources =
     snd (tryCompile miniFrontEnd (resetCompiler_callback miniFrontEnd (loaded args sources)))"


definition unsafeOnly :: Args where
  "unsafeOnly = \<lparr> acceptSafe = False, acceptUnsafe = True, shortLog = False \<rparr>"

definition dryRun :: Args where
  "dryRun = \<lparr> acceptSafe = False, acceptUnsafe = False, shortLog = False \<rparr>"

text \<open>
  Two contracts, the second overriding a function of the first, in the style before 0.6.0:
  no \<open>virtual\<close>, no \<open>override\<close>.
\<close>

definition overrideSource :: string where
  "overrideSource =
     ''contract B { function f() public {} } contract D is B { function f() public {} }''"

definition baseFunction :: FunctionDefinition where
  "baseFunction =
     \<lparr> fn_location = exampleLocation 13 35 overrideSource, fn_name = ''f'',
       isConstructor = False, visibility = Public, parameterTypes = [], overrides = False,
       virtualSemantics = False, fn_body = [] \<rparr>"

definition derivedFunction :: FunctionDefinition where
  "derivedFunction =
     \<lparr> fn_location = exampleLocation 56 78 overrideSource, fn_name = ''f'',
       isConstructor = False, visibility = Public, parameterTypes = [], overrides = False,
       virtualSemantics = False, fn_body = [] \<rparr>"

definition derivedContract :: ContractDefinition where
  "derivedContract =
     \<lparr> ct_location = exampleLocation 38 80 overrideSource, abstract = False,
       isInterface = False, unimplementedFunctions = [],
       definedFunctions = [derivedFunction],
       inheritedEqualRange = (\<lambda>f. if fn_name f = ''f'' then [baseFunction] else []) \<rparr>"

definition overrideUnit :: SourceUnit where
  "overrideUnit =
     \<lparr> contracts =
         [\<lparr> ct_location = exampleLocation 0 37 overrideSource, abstract = False,
            isInterface = False, unimplementedFunctions = [],
            definedFunctions = [baseFunction], inheritedEqualRange = (\<lambda>f. []) \<rparr>,
          derivedContract] \<rparr>"

text \<open>A contract of 0.6.0 that writes to the length of a dynamic array.\<close>

definition lengthSource :: string where
  "lengthSource = ''contract C { uint[] a; function f() public virtual { a.length = 1; } }''"

definition lengthAssignment :: Expression where
  "lengthAssignment =
     Assignment (exampleLocation 53 65 lengthSource)
       (MemberAccess (Identifier ''a'') True ''length'' True) (Literal ''1'')"

definition lengthUnit :: SourceUnit where
  "lengthUnit =
     \<lparr> contracts =
         [\<lparr> ct_location = exampleLocation 0 70 lengthSource, abstract = False,
            isInterface = False, unimplementedFunctions = [],
            definedFunctions =
              [\<lparr> fn_location = exampleLocation 23 68 lengthSource, fn_name = ''f'',
                 isConstructor = False, visibility = Public, parameterTypes = [],
                 overrides = False, virtualSemantics = True,
                 fn_body = [lengthAssignment] \<rparr>],
            inheritedEqualRange = (\<lambda>f. []) \<rparr>] \<rparr>"

text \<open>A function whose header spans two lines, the visibility keyword inside the second.\<close>

definition twoLineFunction :: string where
  "twoLineFunction = ''function f(\<newline>) public {}''"

text \<open>The findings of the catalog on the first example, and on the two contracts.\<close>

definition exampleFindings :: "UpgradeChange list" where
  "exampleFindings =
     [\<lparr> m_location = exampleLocation 0 35 exampleSource, m_source = exampleSource,
         m_patch = ''abstract contract C { function f() public; }'', m_level = Safe \<rparr>,
      \<lparr> m_location = exampleLocation 13 33 exampleSource, m_source = exampleSource,
         m_patch = ''function f() public virtual;'', m_level = Unsafe \<rparr>]"

definition overrideFindings :: "UpgradeChange list" where
  "overrideFindings =
     [\<lparr> m_location = exampleLocation 56 78 overrideSource, m_source = overrideSource,
         m_patch = ''function f() public override {}'', m_level = Unsafe \<rparr>,
      \<lparr> m_location = exampleLocation 56 78 overrideSource, m_source = overrideSource,
         m_patch = ''function f() public virtual {}'', m_level = Unsafe \<rparr>,
      \<lparr> m_location = exampleLocation 13 35 overrideSource, m_source = overrideSource,
         m_patch = ''function f() public virtual {}'', m_level = Unsafe \<rparr>,
      \<lparr> m_location = exampleLocation 56 78 overrideSource, m_source = overrideSource,
         m_patch = ''function f() public virtual {}'', m_level = Unsafe \<rparr>]"


text \<open>
  Two contracts of 0.6.0, the second overriding both functions of the first without the
  annotation.
\<close>

definition twoOverridesSource :: string where
  "twoOverridesSource =
     ''contract B { function f() public virtual {} function g() public virtual {} } contract D is B { function f() public {} function g() public {} }''"

definition virtualF :: FunctionDefinition where
  "virtualF =
     \<lparr> fn_location = exampleLocation 13 43 twoOverridesSource, fn_name = ''f'',
       isConstructor = False, visibility = Public, parameterTypes = [], overrides = False,
       virtualSemantics = True, fn_body = [] \<rparr>"

definition virtualG :: FunctionDefinition where
  "virtualG =
     \<lparr> fn_location = exampleLocation 44 74 twoOverridesSource, fn_name = ''g'',
       isConstructor = False, visibility = Public, parameterTypes = [], overrides = False,
       virtualSemantics = True, fn_body = [] \<rparr>"

definition overridingF :: FunctionDefinition where
  "overridingF =
     \<lparr> fn_location = exampleLocation 95 117 twoOverridesSource, fn_name = ''f'',
       isConstructor = False, visibility = Public, parameterTypes = [], overrides = False,
       virtualSemantics = False, fn_body = [] \<rparr>"

definition overridingG :: FunctionDefinition where
  "overridingG =
     \<lparr> fn_location = exampleLocation 118 140 twoOverridesSource, fn_name = ''g'',
       isConstructor = False, visibility = Public, parameterTypes = [], overrides = False,
       virtualSemantics = False, fn_body = [] \<rparr>"

definition twoOverridesContract :: ContractDefinition where
  "twoOverridesContract =
     \<lparr> ct_location = exampleLocation 77 142 twoOverridesSource, abstract = False,
       isInterface = False, unimplementedFunctions = [],
       definedFunctions = [overridingF, overridingG],
       inheritedEqualRange =
         (\<lambda>f. if fn_name f = ''f'' then [virtualF]
              else if fn_name f = ''g'' then [virtualG] else []) \<rparr>"

definition twoOverridesUnit :: SourceUnit where
  "twoOverridesUnit =
     \<lparr> contracts =
         [\<lparr> ct_location = exampleLocation 0 76 twoOverridesSource, abstract = False,
            isInterface = False, unimplementedFunctions = [],
            definedFunctions = [virtualF, virtualG], inheritedEqualRange = (\<lambda>f. []) \<rparr>,
          twoOverridesContract] \<rparr>"

text \<open>
  A function whose header spans three lines; text follows the visibility keyword on its
  line.
\<close>

definition multiLineSource :: string where
  "multiLineSource =
     ''contract C {\<newline>  function f(\<newline>    uint a\<newline>  ) public returns (uint) {\<newline>    return a;\<newline>  }\<newline>}''"

definition multiLineFunction :: FunctionDefinition where
  "multiLineFunction =
     \<lparr> fn_location = exampleLocation 15 83 multiLineSource, fn_name = ''f'',
       isConstructor = False, visibility = Public, parameterTypes = [''uint''],
       overrides = False, virtualSemantics = False, fn_body = [] \<rparr>"


section \<open>Properties of the layout heuristic\<close>

declare replaceKeyword.simps [simp del]

lemma replaceKeyword_Nil [simp]: "replaceKeyword K fmt prev [] = []"
  by (simp add: replaceKeyword.simps)

lemma replaceKeyword_match:
  "matchesKeywordAt K prev s \<Longrightarrow>
   replaceKeyword K fmt prev s = fmt @ replaceKeyword K fmt (Some (last K)) (drop (length K) s)"
  by (subst replaceKeyword.simps) (auto simp: matchesKeywordAt_def)

lemma replaceKeyword_nomatch:
  "\<not> matchesKeywordAt K prev (c # cs) \<Longrightarrow>
   replaceKeyword K fmt prev (c # cs) = c # replaceKeyword K fmt (Some c) cs"
  by (subst replaceKeyword.simps) simp

lemma replaceKeyword_no_word:
  "\<not> occursAsWord K prev s \<Longrightarrow> replaceKeyword K fmt prev s = s"
  by (induction s arbitrary: prev) (simp_all add: replaceKeyword_nomatch)

lemma match_inside:
  assumes "isKeyword K" "r \<noteq> []" "\<not> isWordChar (last r)"
    and m: "matchesKeywordAt K prev (r @ K @ post)"
  shows "matchesKeywordAt K prev r"
proof -
  from m have p: "prefix K (r @ (K @ post))" and K: "K \<noteq> []"
    and b1: "wordBoundary prev (r @ K @ post)"
    and b2: "wordBoundary (Some (last K)) (drop (length K) (r @ K @ post))"
    by (simp_all add: matchesKeywordAt_def)
  have w: "\<And>x. x \<in> set K \<Longrightarrow> isWordChar x"
    using assms(1) by (simp add: isKeyword_def list_all_iff)
  from p consider "prefix K r" | us where "K = r @ us"
    unfolding prefix_append by blast
  then show ?thesis
  proof cases
    case 1
    then obtain t where t: "r = K @ t" by (auto elim: prefixE)
    have "t \<noteq> []"
    proof
      assume "t = []"
      then have "last r \<in> set K" using t K by simp
      then show False using w assms(3) by blast
    qed
    then obtain x xs where x: "t = x # xs" by (cases t) auto
    have "wordBoundary prev r"
      using b1 assms(2) by (cases r) (simp_all add: wordBoundary_def)
    moreover have "wordBoundary (Some (last K)) (drop (length K) r)"
      using b2 t x by (simp add: wordBoundary_def)
    ultimately show ?thesis using K 1 by (simp add: matchesKeywordAt_def)
  next
    case 2
    then have "last r \<in> set K" using assms(2) by (metis last_in_set Un_iff set_append)
    then show ?thesis using w assms(3) by blast
  qed
qed

lemma replaceKeyword_before_word:
  assumes "isKeyword K" "\<not> occursAsWord K prev pre" "pre = [] \<or> \<not> isWordChar (last pre)"
  shows "replaceKeyword K fmt prev (pre @ K @ post)
         = pre @ replaceKeyword K fmt (if pre = [] then prev else Some (last pre)) (K @ post)"
  using assms(2,3)
proof (induction pre arbitrary: prev)
  case Nil
  then show ?case by simp
next
  case (Cons c pre)
  have l: "\<not> isWordChar (last (c # pre))" using Cons.prems(2) by blast
  have "\<not> matchesKeywordAt K prev (c # pre)" using Cons.prems(1) by simp
  then have nm: "\<not> matchesKeywordAt K prev ((c # pre) @ K @ post)"
    using match_inside[OF assms(1) _ l, of prev post] by blast
  have no: "\<not> occursAsWord K (Some c) pre" using Cons.prems(1) by simp
  show ?case
  proof (cases "pre = []")
    case True
    then show ?thesis using nm by (simp add: replaceKeyword_nomatch)
  next
    case False
    then have "\<not> isWordChar (last pre)" using l by simp
    then show ?thesis using nm Cons.IH[OF no] False
      by (simp add: replaceKeyword_nomatch)
  qed
qed

lemma matches_at_keyword:
  assumes "isKeyword K" "case prev of None \<Rightarrow> True | Some c \<Rightarrow> \<not> isWordChar c"
    "post = [] \<or> \<not> isWordChar (hd post)"
  shows "matchesKeywordAt K prev (K @ post)"
proof -
  from assms(1) obtain k ks where K: "K = k # ks" and w: "isWordChar k" "isWordChar (last K)"
    by (cases K) (auto simp: isKeyword_def list_all_iff)
  have "wordBoundary prev (K @ post)"
    using assms(2) K w by (auto simp: wordBoundary_def split: option.splits)
  moreover have "wordBoundary (Some (last K)) post"
    using assms(3) w by (cases post) (auto simp: wordBoundary_def)
  ultimately show ?thesis using K by (simp add: matchesKeywordAt_def)
qed

lemma replaceKeyword_one_word:
  assumes "isKeyword K" "\<not> occursAsWord K None pre" "pre = [] \<or> \<not> isWordChar (last pre)"
    "\<not> occursAsWord K (Some (last K)) post" "post = [] \<or> \<not> isWordChar (hd post)"
  shows "replaceKeyword K fmt None (pre @ K @ post) = pre @ fmt @ post"
proof -
  let ?prev = "if pre = [] then None else Some (last pre)"
  have "matchesKeywordAt K ?prev (K @ post)"
    using assms(3) by (intro matches_at_keyword[OF assms(1) _ assms(5)]) auto
  then have "replaceKeyword K fmt ?prev (K @ post) = fmt @ replaceKeyword K fmt (Some (last K)) post"
    by (simp add: replaceKeyword_match)
  then show ?thesis
    using replaceKeyword_before_word[OF assms(1,2,3), of fmt post]
      replaceKeyword_no_word[OF assms(4)] by simp
qed

lemma search_match:
  "searchKeywordAtEnd K prev s \<Longrightarrow>
   \<exists>a. s = a @ K \<and> matchesKeywordAt K (if a = [] then prev else Some (last a)) K"
proof (induction s arbitrary: prev)
  case Nil
  then show ?case by simp
next
  case (Cons c cs)
  from Cons.prems consider "matchesKeywordAt K prev (c # cs) \<and> drop (length K) (c # cs) = []"
    | "searchKeywordAtEnd K (Some c) cs" by auto
  then show ?case
  proof cases
    case 1
    then have p: "prefix K (c # cs)" and le: "length (c # cs) \<le> length K"
      by (auto simp: matchesKeywordAt_def)
    from p obtain zs where zs: "c # cs = K @ zs"
      by (auto elim: prefixE)
    from zs have "length (c # cs) = length K + length zs" by (metis length_append)
    with le have "zs = []" by simp
    with zs have e: "c # cs = K" by simp
    have "matchesKeywordAt K prev K" using 1 e by simp
    then show ?thesis using e by (intro exI[of _ "[]"]) simp
  next
    case 2
    from Cons.IH[OF 2] obtain a where a: "cs = a @ K"
      "matchesKeywordAt K (if a = [] then Some c else Some (last a)) K" by blast
    have "c # cs = (c # a) @ K" using a(1) by simp
    moreover have "matchesKeywordAt K (if c # a = [] then prev else Some (last (c # a))) K"
      using a(2) by (cases "a = []") simp_all
    ultimately show ?thesis by blast
  qed
qed

lemma occursAsWord_behind:
  "matchesKeywordAt K (if t = [] then prev else Some (last t)) r \<Longrightarrow> occursAsWord K prev (t @ r)"
proof (induction t arbitrary: prev)
  case Nil
  then have "r \<noteq> []" by (auto simp: matchesKeywordAt_def)
  then obtain x xs where "r = x # xs" by (cases r) auto
  then show ?case using Nil by simp
next
  case (Cons c t)
  have "matchesKeywordAt K (if t = [] then Some c else Some (last t)) r"
    using Cons.prems by (cases "t = []") simp_all
  from Cons.IH[OF this] show ?case by simp
qed

lemma not_multiline_word:
  assumes "isKeyword K" "\<not> occursAsWord K (Some (last K)) post" "post \<noteq> []"
    "\<not> isWordChar (hd post)"
  shows "\<not> isMultiline (pre @ K @ post) K"
proof
  assume "isMultiline (pre @ K @ post) K"
  then obtain a where a: "pre @ K @ post = a @ K"
    and m: "matchesKeywordAt K (if a = [] then None else Some (last a)) K"
    unfolding isMultiline_def using search_match by blast
  from a have "(pre @ K) @ post = a @ K" by simp
  then consider us where "pre @ K = a @ us" "us @ post = K"
    | us where "(pre @ K) @ us = a" "post = us @ K"
    unfolding append_eq_append_conv2 by blast
  then show False
  proof cases
    case 1
    then have "hd post \<in> set K" using assms(3) by (metis Un_iff hd_in_set set_append)
    then show False using assms(1,4) by (simp add: isKeyword_def list_all_iff)
  next
    case 2
    have K: "K \<noteq> []" using assms(1) by (simp add: isKeyword_def)
    have "a \<noteq> []" using 2(1) K by auto
    moreover have "last a = (if us = [] then last K else last us)"
      using 2(1) K by auto
    ultimately have "matchesKeywordAt K (if us = [] then Some (last K) else Some (last us)) K"
      using m by (cases "us = []") simp_all
    then have "occursAsWord K (Some (last K)) (us @ K)" by (rule occursAsWord_behind)
    then show False using assms(2) 2(2) by simp
  qed
qed

lemma placeInText_one_word:
  assumes "isKeyword K" "\<not> occursAsWord K None pre" "pre = [] \<or> \<not> isWordChar (last pre)"
    "\<not> occursAsWord K (Some (last K)) post" "post \<noteq> []" "\<not> isWordChar (hd post)"
  shows "placeInText (pre @ K @ post) K kw = pre @ K @ CHR '' '' # kw @ post"
  using not_multiline_word[OF assms(1,4,5,6), of pre]
    replaceKeyword_one_word[OF assms(1,2,3,4), where fmt = "K @ CHR '' '' # kw"] assms(6)
  by (simp add: placeInText_def)

lemma search_at_end:
  assumes "isKeyword K" "\<not> occursAsWord K prev pre" "pre = [] \<or> \<not> isWordChar (last pre)"
  shows "searchKeywordAtEnd K prev (pre @ K) \<or> (pre = [] \<and> (case prev of None \<Rightarrow> False | Some c \<Rightarrow> isWordChar c))"
  using assms(2,3)
proof (induction pre arbitrary: prev)
  case Nil
  obtain k ks where K: "K = k # ks" using assms(1) by (cases K) (auto simp: isKeyword_def)
  show ?case
  proof (cases "case prev of None \<Rightarrow> False | Some c \<Rightarrow> isWordChar c")
    case True
    then show ?thesis by simp
  next
    case False
    then have "matchesKeywordAt K prev (K @ [])"
      by (intro matches_at_keyword[OF assms(1)]) (auto split: option.splits)
    then show ?thesis using K by auto
  qed
next
  case (Cons c pre)
  have ns: "\<not> occursAsWord K (Some c) pre" using Cons.prems(1) by simp
  show ?case
  proof (cases "pre = []")
    case True
    then have "\<not> isWordChar c" using Cons.prems(2) by simp
    then show ?thesis using Cons.IH[OF ns] True by auto
  next
    case False
    then have "\<not> isWordChar (last pre)" using Cons.prems(2) by simp
    then show ?thesis using Cons.IH[OF ns] False by auto
  qed
qed

lemma multiline_at_end:
  assumes "isKeyword K" "\<not> occursAsWord K None pre" "pre = [] \<or> \<not> isWordChar (last pre)"
  shows "isMultiline (pre @ K) K"
  using search_at_end[OF assms] by (simp add: isMultiline_def)

lemma placeInText_new_line:
  assumes "isKeyword K" "\<not> occursAsWord K None pre" "pre = [] \<or> \<not> isWordChar (last pre)"
  shows "placeInText (pre @ K) K kw = pre @ K @ CHR ''\<newline>'' # kw"
  using multiline_at_end[OF assms]
    replaceKeyword_one_word[OF assms(1,2,3), where post = "[]" and fmt = "K @ CHR ''\<newline>'' # kw"]
  by (simp add: placeInText_def)

section \<open>Properties of the rules\<close>

lemma substr_ok: "pos \<le> length s \<Longrightarrow> substr s pos n = Inr (take n (drop pos s))"
  by (simp add: substr_def)

lemma to_size_t_nat: "0 \<le> i \<Longrightarrow> i < 2 ^ 64 \<Longrightarrow> to_size_t i = nat i"
  by (simp add: to_size_t_def)

lemma locationText_valid:
  assumes "validLocation l"
  shows "locationText l = Inr (declarationText l)"
proof -
  from assms have b: "0 \<le> loc_start l" "loc_start l \<le> loc_end l"
    "loc_end l \<le> int (length (loc_source l))" "loc_end l < 2 ^ 31"
    by (auto simp: validLocation_def)
  have "(2::int) ^ 31 < 2 ^ 64" by simp
  with b have s: "to_size_t (loc_start l) = nat (loc_start l)"
    and d: "to_size_t (loc_end l - loc_start l) = nat (loc_end l - loc_start l)"
    by (auto intro!: to_size_t_nat)
  have "nat (loc_start l) \<le> length (loc_source l)" using b by linarith
  then show ?thesis
    by (simp add: locationText_def s d substr_def declarationText_def)
qed

lemma placeAfter_valid:
  "validLocation l \<Longrightarrow>
   placeAfterFunctionHeaderKeyword l K kw = Inr (placeInText (declarationText l) K kw)"
  by (simp add: placeAfterFunctionHeaderKeyword_def locationText_valid)

lemma for_each_extends:
  assumes step: "\<And>n ch out. n \<in> set ns \<Longrightarrow> body n ch = Inr out \<Longrightarrow> \<exists>extra. out = ch @ extra \<and> list_all Q extra"
    and run: "for_each body ns ch = Inr out"
  shows "\<exists>extra. out = ch @ extra \<and> list_all Q extra"
  using step run
proof (induction ns arbitrary: ch)
  case Nil
  then show ?case by simp
next
  case (Cons n ns)
  from Cons.prems(2) obtain ch1 where f: "body n ch = Inr ch1" and r: "for_each body ns ch1 = Inr out"
    by (auto split: sum.splits)
  from Cons.prems(1)[OF _ f] obtain e1 where e1: "ch1 = ch @ e1" "list_all Q e1" by auto
  from Cons.IH[OF _ r] Cons.prems(1) obtain e2 where e2: "out = ch1 @ e2" "list_all Q e2"
    by (metis list.set_intros(2))
  show ?case using e1 e2 by (intro exI[of _ "e1 @ e2"]) simp
qed

lemma for_each_total:
  assumes "\<And>n ch. n \<in> set ns \<Longrightarrow> \<exists>out. body n ch = Inr out"
  shows "\<exists>out. for_each body ns ch = Inr out"
  using assms
proof (induction ns arbitrary: ch)
  case Nil
  then show ?case by simp
next
  case (Cons n ns)
  then obtain ch1 where "body n ch = Inr ch1" by (metis list.set_intros(1))
  then show ?case using Cons by (simp add: list.set_intros(2))
qed

lemma AbstractContract_endVisit_valid:
  "needsAbstract c \<longrightarrow> validLocation (ct_location c) \<Longrightarrow>
   AbstractContract_endVisit c ch = Inr (ch @ (if needsAbstract c then [abstractRecord c] else []))"
  by (auto simp: AbstractContract_endVisit_def needsAbstract_def locationText_valid
      abstractRecord_def UpgradeChange_def)

lemma AbstractContract_for_each_valid:
  "list_all (\<lambda>c. needsAbstract c \<longrightarrow> validLocation (ct_location c)) cs \<Longrightarrow>
   for_each AbstractContract_endVisit cs ch = Inr (ch @ map abstractRecord (filter needsAbstract cs))"
proof (induction cs arbitrary: ch)
  case Nil
  then show ?case by simp
next
  case (Cons c cs)
  then show ?case by (simp add: AbstractContract_endVisit_valid)
qed

lemma OverridingFunction_super_unsafe:
  "OverridingFunction_super f s ch = Inr out \<Longrightarrow> \<exists>extra. out = ch @ extra \<and> list_all isUnsafe extra"
  by (auto simp: OverridingFunction_super_def UpgradeChange_def isUnsafe_def
      split: sum.splits if_splits)

lemma OverridingFunction_function_unsafe:
  assumes "OverridingFunction_function c f ch = Inr out"
  shows "\<exists>extra. out = ch @ extra \<and> list_all isUnsafe extra"
proof (cases "isConstructor f")
  case True
  then show ?thesis using assms by (simp add: OverridingFunction_function_def)
next
  case False
  then have "for_each (OverridingFunction_super f) (inheritedEqualRange c f) ch = Inr out"
    using assms by (simp add: OverridingFunction_function_def)
  then show ?thesis
    by (rule for_each_extends[rotated]) (rule OverridingFunction_super_unsafe)
qed

lemma OverridingFunction_endVisit_unsafe:
  assumes "OverridingFunction_endVisit c ch = Inr out"
  shows "\<exists>extra. out = ch @ extra \<and> list_all isUnsafe extra"
  using assms unfolding OverridingFunction_endVisit_def
  by (rule for_each_extends[rotated]) (rule OverridingFunction_function_unsafe)

lemma OverridingFunction_analyze_unsafe:
  assumes "OverridingFunction_analyze su ch = Inr out"
  shows "\<exists>extra. out = ch @ extra \<and> list_all isUnsafe extra"
  using assms unfolding OverridingFunction_analyze_def
  by (rule for_each_extends[rotated]) (rule OverridingFunction_endVisit_unsafe)

lemma VirtualFunction_endVisit_unsafe:
  "VirtualFunction_endVisit f ch = Inr out \<Longrightarrow> \<exists>extra. out = ch @ extra \<and> list_all isUnsafe extra"
  by (auto simp: VirtualFunction_endVisit_def UpgradeChange_def isUnsafe_def
      split: sum.splits if_splits)

lemma VirtualFunction_analyze_unsafe:
  assumes "VirtualFunction_analyze su ch = Inr out"
  shows "\<exists>extra. out = ch @ extra \<and> list_all isUnsafe extra"
  using assms unfolding VirtualFunction_analyze_def
  by (rule for_each_extends[rotated]) (rule VirtualFunction_endVisit_unsafe)

lemma OverridingFunction_super_total:
  "validLocation (fn_location f) \<Longrightarrow> \<exists>out. OverridingFunction_super f s ch = Inr out"
  by (simp add: OverridingFunction_super_def placeAfter_valid)

lemma OverridingFunction_endVisit_total:
  assumes "list_all (\<lambda>f. validLocation (fn_location f)) (definedFunctions c)"
  shows "\<exists>out. OverridingFunction_endVisit c ch = Inr out"
  unfolding OverridingFunction_endVisit_def
proof (rule for_each_total)
  fix f ch'
  assume "f \<in> set (definedFunctions c)"
  then have v: "validLocation (fn_location f)" using assms by (simp add: list_all_iff)
  show "\<exists>out. OverridingFunction_function c f ch' = Inr out"
  proof (cases "isConstructor f")
    case True
    then show ?thesis by (simp add: OverridingFunction_function_def)
  next
    case False
    then show ?thesis
      using for_each_total[of "inheritedEqualRange c f" "OverridingFunction_super f" ch']
        OverridingFunction_super_total[OF v]
      by (simp add: OverridingFunction_function_def)
  qed
qed

lemma OverridingFunction_analyze_total:
  assumes "wellFormedUnit su"
  shows "\<exists>out. OverridingFunction_analyze su ch = Inr out"
  unfolding OverridingFunction_analyze_def
  using assms
  by (intro for_each_total OverridingFunction_endVisit_total)
     (auto simp: wellFormedUnit_def list_all_iff)

lemma VirtualFunction_analyze_total:
  assumes "wellFormedUnit su"
  shows "\<exists>out. VirtualFunction_analyze su ch = Inr out"
  unfolding VirtualFunction_analyze_def
proof (rule for_each_total)
  fix f ch'
  assume "f \<in> set (functionNodes su)"
  then have "validLocation (fn_location f)"
    using assms by (auto simp: functionNodes_def wellFormedUnit_def list_all_iff)
  then show "\<exists>out. VirtualFunction_endVisit f ch' = Inr out"
    by (simp add: VirtualFunction_endVisit_def placeAfter_valid)
qed

lemma filter_safe_unsafe: "list_all isUnsafe xs \<Longrightarrow> filter isSafe xs = []"
  by (induction xs) (auto simp: isSafe_def isUnsafe_def)

lemma filter_safe_abstractRecords: "filter isSafe (map abstractRecord cs) = map abstractRecord cs"
  by (induction cs) (auto simp: isSafe_def abstractRecord_def)

section \<open>Properties of the driver\<close>

lemma isKeyword_visibility: "isKeyword (visibilityToString v)"
  by (cases v) (simp_all add: isKeyword_def isWordChar_def)

lemma AbstractContract_endVisit_adds:
  assumes "AbstractContract_endVisit c ch = Inr out"
  shows "\<exists>extra. out = ch @ extra \<and>
           list_all (\<lambda>r. \<exists>text. locationText (m_location r) = Inr text
                        \<and> m_source r = loc_source (m_location r)
                        \<and> m_patch r = ''abstract '' @ text) extra"
  using assms
  by (auto simp: AbstractContract_endVisit_def UpgradeChange_def Let_def
      split: if_splits sum.splits)

lemma list_all_unsafe_weaken: "list_all isUnsafe xs \<Longrightarrow> list_all (\<lambda>r. m_level r = Safe \<longrightarrow> P r) xs"
  by (induction xs) (auto simp: isUnsafe_def)

lemma sublist_behind: "sublist xs (ys @ xs)"
  by (rule suffix_imp_sublist) (simp add: suffix_def)




lemma history_emit [simp]: "history (emit e s) = history s @ [e]"
  and sources_emit [simp]: "m_sourceCodes (emit e s) = m_sourceCodes s"
  and files_emit [simp]: "files (emit e s) = files s"
  and compiler_emit [simp]: "m_compiler (emit e s) = m_compiler s"
  and args_emit [simp]: "m_args (emit e s) = m_args s"
  by (simp_all add: emit_def)

lemma added_self [simp]: "added s s = []"
  by (simp add: added_def)

lemma added_emit: "history s' = history s @ es \<Longrightarrow> added s (emit e s') = es @ [e]"
  by (simp add: added_def)


lemma added_extends: "history s' = history s @ es \<Longrightarrow> added s s' = es"
  by (simp add: added_def)

lemma catalogRuns_append: "catalogRuns (xs @ ys) = catalogRuns xs @ catalogRuns ys"
  by (induction xs rule: catalogRuns.induct) simp_all

lemma fold_emit_history:
  "history (fold (\<lambda>x. emit (g x)) xs s) = history s @ map g xs"
  by (induction xs arbitrary: s) simp_all

lemma fold_emit_frame:
  "m_sourceCodes (fold (\<lambda>x. emit (g x)) xs s) = m_sourceCodes s
   \<and> files (fold (\<lambda>x. emit (g x)) xs s) = files s
   \<and> m_compiler (fold (\<lambda>x. emit (g x)) xs s) = m_compiler s
   \<and> m_args (fold (\<lambda>x. emit (g x)) xs s) = m_args s"
  by (induction xs arbitrary: s) simp_all

lemma printNonWarnings_frame:
  "m_sourceCodes (printNonWarnings cs s) = m_sourceCodes s
   \<and> files (printNonWarnings cs s) = files s
   \<and> m_compiler (printNonWarnings cs s) = m_compiler s
   \<and> m_args (printNonWarnings cs s) = m_args s"
proof -
  have "\<And>t. m_sourceCodes (fold (\<lambda>error s'. if err_type error \<noteq> Warning then emit (PrintErrorInformation error) s' else s') es t) = m_sourceCodes t
   \<and> files (fold (\<lambda>error s'. if err_type error \<noteq> Warning then emit (PrintErrorInformation error) s' else s') es t) = files t
   \<and> m_compiler (fold (\<lambda>error s'. if err_type error \<noteq> Warning then emit (PrintErrorInformation error) s' else s') es t) = m_compiler t
   \<and> m_args (fold (\<lambda>error s'. if err_type error \<noteq> Warning then emit (PrintErrorInformation error) s' else s') es t) = m_args t" for es
    by (induction es) simp_all
  then show ?thesis by (simp add: printNonWarnings_def)
qed

lemma printNonWarnings_history:
  "history (printNonWarnings cs s)
   = history s @ map PrintErrorInformation (filter (\<lambda>e. err_type e \<noteq> Warning) (cs_errors cs (m_compiler s)))"
proof -
  have "\<And>t. history (fold (\<lambda>error s'. if err_type error \<noteq> Warning then emit (PrintErrorInformation error) s' else s') es t)
        = history t @ map PrintErrorInformation (filter (\<lambda>e. err_type e \<noteq> Warning) es)" for es
    by (induction es) simp_all
  then show ?thesis by (simp add: printNonWarnings_def)
qed

lemma quiet_simps [simp]:
  "quiet []"
  "quiet (Print t # es) = quiet es"
  "quiet (LogChange c b # es) = quiet es"
  "quiet (PrintErrorInformation e # es) = quiet es"
  "quiet (SetSources srcs # es) = quiet es"
  by (simp_all add: quiet_def)

lemma quiet_append [simp]: "quiet (xs @ ys) = (quiet xs \<and> quiet ys)"
  by (auto simp: quiet_def catalogRuns_append)

lemma quiet_errors [simp]: "quiet (map PrintErrorInformation es)"
  by (induction es) simp_all

lemma quiet_logs [simp]: "quiet (map (\<lambda>c. LogChange c b) cs)"
  by (induction cs) simp_all

lemma tryCompile_body_effect:
  "\<exists>r s' es. tryCompile_body cs s = (r, s') \<and> history s' = history s @ es \<and> quiet es
      \<and> files s' = files s \<and> m_args s' = m_args s"
  by (auto simp: tryCompile_body_def Let_def printErrors_def printUnresolvableErrors_def
      printNonWarnings_frame printNonWarnings_history
      split: prod.splits sum.splits bool.splits)

lemma tryCompile_effect:
  "\<exists>s' es. tryCompile cs s = (Inr (), s')
      \<and> history s' = history s @ Print ''Running compilation phases...'' # es \<and> quiet es
      \<and> files s' = files s \<and> m_args s' = m_args s"
proof -
  obtain r s1 es where b: "tryCompile_body cs (emit (Print ''Running compilation phases...'') s) = (r, s1)"
    "history s1 = history (emit (Print ''Running compilation phases...'') s) @ es" "quiet es"
    "files s1 = files s" "m_args s1 = m_args s"
    using tryCompile_body_effect[of cs "emit (Print ''Running compilation phases...'') s"]
    by auto
  show ?thesis
  proof (cases r)
    case (Inr u)
    then show ?thesis using b by (simp add: tryCompile_def)
  next
    case (Inl ex)
    then show ?thesis using b by (cases ex) (simp_all add: tryCompile_def)
  qed
qed

lemma compiled_upgraded_unsafe:
  "compiled unsafeOnly [(''a.sol'', upgradedSource)]
   = \<lparr> m_args = unsafeOnly, m_sourceCodes = [(''a.sol'', upgradedSource)],
       m_compiler = \<lparr> mc_sources = [(''a.sol'', upgradedSource)], mc_state = CompilationSuccessful,
                      mc_errors = [] \<rparr>,
       files = map_of [(''a.sol'', upgradedSource)],
       history = [SetSources [(''a.sol'', upgradedSource)], Print ''Running compilation phases...''] \<rparr>"
  by (simp add: compiled_def loaded_def tryCompile_def tryCompile_body_def resetCompiler_callback_def
      miniFrontEnd_def emit_def upgradedSource_def Let_def)

lemma analyzeAndLog_effect:
  "\<exists>r s' es. analyzeAndLog cs sourceCode s = (r, s')
      \<and> m_sourceCodes s' = m_sourceCodes s \<and> files s' = files s
      \<and> m_compiler s' = m_compiler s \<and> m_args s' = m_args s
      \<and> history s' = history s @ es
      \<and> filter isChangeApplied es = [] \<and> filter isFileWritten es = []
      \<and> prefix (catalogRuns es) [fst sourceCode]
      \<and> (stateRank (cs_state cs (m_compiler s)) < stateRank AnalysisPerformed \<longrightarrow> catalogRuns es = [])
      \<and> (stateRank AnalysisPerformed \<le> stateRank (cs_state cs (m_compiler s)) \<longrightarrow> r = Inr ()
            \<longrightarrow> catalogRuns es = [fst sourceCode])"
proof (cases "stateRank AnalysisPerformed \<le> stateRank (cs_state cs (m_compiler s))")
  case False
  then show ?thesis
    by (simp add: analyzeAndLog_def Let_def)
next
  case True
  show ?thesis
  proof (cases "cs_ast cs (m_compiler s) (fst sourceCode)")
    case (Inl ex)
    then show ?thesis using True by (simp add: analyzeAndLog_def Let_def)
  next
    case (Inr su)
    show ?thesis
    proof (cases "Upgrade060_analyze su (snd sourceCode) []")
      case (Inl ex)
      then show ?thesis using True Inr by (simp add: analyzeAndLog_def Let_def)
    next
      case Inr2: (Inr changes)
      then show ?thesis using True Inr
        by (cases "changes = []")
          (simp_all add: analyzeAndLog_def Let_def fold_emit_history fold_emit_frame
            catalogRuns_append quiet_logs[unfolded quiet_def])
    qed
  qed
qed

lemma analyzeAndLog_each_effect:
  "\<exists>r s' es. analyzeAndLog_each cs sources s = (r, s')
      \<and> m_sourceCodes s' = m_sourceCodes s \<and> files s' = files s
      \<and> m_compiler s' = m_compiler s \<and> m_args s' = m_args s
      \<and> history s' = history s @ es
      \<and> filter isChangeApplied es = [] \<and> filter isFileWritten es = []
      \<and> prefix (catalogRuns es) (map fst sources)
      \<and> (stateRank (cs_state cs (m_compiler s)) < stateRank AnalysisPerformed \<longrightarrow> catalogRuns es = [])
      \<and> (stateRank AnalysisPerformed \<le> stateRank (cs_state cs (m_compiler s)) \<longrightarrow> r = Inr ()
            \<longrightarrow> catalogRuns es = map fst sources)"
proof (induction sources arbitrary: s)
  case Nil
  show ?case by simp
next
  case (Cons sourceCode rest)
  obtain r1 s1 e1 where 1: "analyzeAndLog cs sourceCode s = (r1, s1)"
    "m_sourceCodes s1 = m_sourceCodes s" "files s1 = files s"
    "m_compiler s1 = m_compiler s" "m_args s1 = m_args s"
    "history s1 = history s @ e1"
    "filter isChangeApplied e1 = []" "filter isFileWritten e1 = []"
    "prefix (catalogRuns e1) [fst sourceCode]"
    "stateRank (cs_state cs (m_compiler s)) < stateRank AnalysisPerformed \<longrightarrow> catalogRuns e1 = []"
    "stateRank AnalysisPerformed \<le> stateRank (cs_state cs (m_compiler s)) \<longrightarrow> r1 = Inr ()
            \<longrightarrow> catalogRuns e1 = [fst sourceCode]"
    using analyzeAndLog_effect[of cs sourceCode s] by blast
  show ?case
  proof (cases r1)
    case (Inl ex)
    have "prefix [fst sourceCode] (map fst (sourceCode # rest))" by simp
    with 1(9) have "prefix (catalogRuns e1) (map fst (sourceCode # rest))"
      by (rule prefix_order.trans)
    then show ?thesis using 1 Inl by simp
  next
    case (Inr u)
    obtain r2 s2 e2 where 2: "analyzeAndLog_each cs rest s1 = (r2, s2)"
      "m_sourceCodes s2 = m_sourceCodes s1" "files s2 = files s1"
      "m_compiler s2 = m_compiler s1" "m_args s2 = m_args s1"
      "history s2 = history s1 @ e2"
      "filter isChangeApplied e2 = []" "filter isFileWritten e2 = []"
      "prefix (catalogRuns e2) (map fst rest)"
      "stateRank (cs_state cs (m_compiler s1)) < stateRank AnalysisPerformed \<longrightarrow> catalogRuns e2 = []"
      "stateRank AnalysisPerformed \<le> stateRank (cs_state cs (m_compiler s1)) \<longrightarrow> r2 = Inr ()
            \<longrightarrow> catalogRuns e2 = map fst rest"
      using Cons.IH[of s1] by blast
    have run: "analyzeAndLog_each cs (sourceCode # rest) s = (r2, s2)"
      using 1(1) 2(1) Inr by simp
    have h: "history s2 = history s @ (e1 @ e2)" using 1(6) 2(6) by simp
    have p: "prefix (catalogRuns (e1 @ e2)) (map fst (sourceCode # rest))"
    proof (cases "stateRank AnalysisPerformed \<le> stateRank (cs_state cs (m_compiler s))")
      case True
      then have "catalogRuns e1 = [fst sourceCode]" using 1(11) Inr by simp
      then show ?thesis using 2(9) by (simp add: catalogRuns_append)
    next
      case False
      then have "catalogRuns e1 = []" "catalogRuns e2 = []" using 1(10) 2(10) 1(4) by auto
      then show ?thesis by (simp add: catalogRuns_append)
    qed
    show ?thesis
      apply (rule exI[of _ r2], rule exI[of _ s2], rule exI[of _ "e1 @ e2"])
      using run h p 1 2 Inr by (simp add: catalogRuns_append)
  qed
qed

lemma compiled_broken:
  "compiled dryRun [(''a.sol'', brokenSource)]
   = \<lparr> m_args = dryRun, m_sourceCodes = [(''a.sol'', brokenSource)],
       m_compiler = \<lparr> mc_sources = [(''a.sol'', brokenSource)], mc_state = SourcesSet,
                      mc_errors = [\<lparr> err_type = ParserError, err_message = ''Expected }'' \<rparr>] \<rparr>,
       files = map_of [(''a.sol'', brokenSource)],
       history = [SetSources [(''a.sol'', brokenSource)], Print ''Running compilation phases...'',
                  Print ''Compilation errors that solidity-upgrade cannot resolve occurred.'',
                  PrintErrorInformation \<lparr> err_type = ParserError, err_message = ''Expected }'' \<rparr>] \<rparr>"
  by (simp add: compiled_def loaded_def tryCompile_def tryCompile_body_def resetCompiler_callback_def
      miniFrontEnd_def emit_def brokenSource_def Let_def printUnresolvableErrors_def
      printNonWarnings_def)

lemma compiled_example_dry:
  "compiled dryRun [(''a.sol'', exampleSource)]
   = \<lparr> m_args = dryRun, m_sourceCodes = [(''a.sol'', exampleSource)],
       m_compiler = \<lparr> mc_sources = [(''a.sol'', exampleSource)], mc_state = AnalysisPerformed,
                      mc_errors = [\<lparr> err_type = TypeError,
                                    err_message = ''Contract should be marked as abstract.'' \<rparr>] \<rparr>,
       files = map_of [(''a.sol'', exampleSource)],
       history = [SetSources [(''a.sol'', exampleSource)], Print ''Running compilation phases...'',
                  Print ''Compilation errors that solidity-upgrade may resolve occurred.'',
                  PrintErrorInformation \<lparr> err_type = TypeError,
                                    err_message = ''Contract should be marked as abstract.'' \<rparr>] \<rparr>"
  by (simp add: compiled_def loaded_def tryCompile_def tryCompile_body_def resetCompiler_callback_def
      miniFrontEnd_def emit_def exampleSource_def Let_def printErrors_def
      printNonWarnings_def)












lemma ArrayLength_endVisit_valid:
  assumes "case lengthWriteAt node of None \<Rightarrow> True | Some location \<Rightarrow> validLocation location"
  shows "ArrayLength_endVisit node changes
         = Inr (changes @ (case lengthWriteAt node of None \<Rightarrow> []
                           | Some location \<Rightarrow> [lengthWriteRecord location]))"
proof (cases "lengthWriteAt node")
  case None
  then show ?thesis
    by (induction node changes rule: ArrayLength_endVisit.induct) (auto split: if_splits)
next
  case (Some location)
  then have v: "validLocation location" using assms by simp
  then have "0 \<le> loc_start location" "loc_start location < 2 ^ 64"
    "loc_start location \<le> int (length (loc_source location))"
    by (auto simp: validLocation_def)
  then have le: "\<not> length (loc_source location) < to_size_t (loc_start location)"
    by (simp add: to_size_t_nat)
  from Some show ?thesis
    by (induction node changes rule: ArrayLength_endVisit.induct)
      (simp_all add: le substr_def UpgradeChange_def lengthWriteRecord_def split: if_splits)
qed

lemma ArrayLength_for_each_valid:
  "list_all validLocation (List.map_filter lengthWriteAt nodes) \<Longrightarrow>
   for_each ArrayLength_endVisit nodes changes
     = Inr (changes @ map lengthWriteRecord (List.map_filter lengthWriteAt nodes))"
proof (induction nodes arbitrary: changes)
  case Nil
  then show ?case by simp
next
  case (Cons node nodes)
  show ?case
  proof (cases "lengthWriteAt node")
    case None
    then show ?thesis using Cons
      by (simp add: ArrayLength_endVisit_valid)
  next
    case (Some location)
    then show ?thesis using Cons
      by (simp add: ArrayLength_endVisit_valid)
  qed
qed

lemma dry_run_branch:
  assumes "\<not> acceptSafe (m_args s)" and "\<not> acceptUnsafe (m_args s)"
  shows "\<exists>r s' es. applyOrLog cs s = Some (r, s')
           \<and> m_sourceCodes s' = m_sourceCodes s \<and> files s' = files s
           \<and> m_compiler s' = m_compiler s
           \<and> history s' = history s @ es
           \<and> filter isChangeApplied es = []
           \<and> filter isFileWritten es = []
           \<and> prefix (catalogRuns es) (map fst (m_sourceCodes s))
           \<and> (case r of
                 Inl ex \<Rightarrow> True
               | Inr u \<Rightarrow>
                   catalogRuns es
                     = (if stateRank AnalysisPerformed \<le> stateRank (cs_state cs (m_compiler s))
                        then map fst (m_sourceCodes s) else []))"
proof -
  obtain r s' es where e: "analyzeAndLog_each cs (m_sourceCodes s) s = (r, s')"
      "m_sourceCodes s' = m_sourceCodes s" "files s' = files s"
      "m_compiler s' = m_compiler s"
      "history s' = history s @ es"
      "filter isChangeApplied es = []" "filter isFileWritten es = []"
      "prefix (catalogRuns es) (map fst (m_sourceCodes s))"
      "stateRank (cs_state cs (m_compiler s)) < stateRank AnalysisPerformed \<longrightarrow> catalogRuns es = []"
      "stateRank AnalysisPerformed \<le> stateRank (cs_state cs (m_compiler s)) \<longrightarrow> r = Inr ()
            \<longrightarrow> catalogRuns es = map fst (m_sourceCodes s)"
    using analyzeAndLog_each_effect[of cs "m_sourceCodes s" s] by blast
  have run: "applyOrLog cs s = Some (r, s')" using assms e(1) by (simp add: applyOrLog_def)
  have last: "case r of Inl ex \<Rightarrow> True
               | Inr u \<Rightarrow> catalogRuns es
                     = (if stateRank AnalysisPerformed \<le> stateRank (cs_state cs (m_compiler s))
                        then map fst (m_sourceCodes s) else [])"
    using e(9,10) by (cases r) auto
  show ?thesis
    using run e(2-8) last by blast
qed

lemma first_compilation:
  "\<exists>s1 es. tryCompile cs (resetCompiler_callback cs s) = (Inr (), s1)
      \<and> history s1 = history s @ es
      \<and> filter isChangeApplied es = [] \<and> filter isFileWritten es = []
      \<and> files s1 = files s \<and> m_args s1 = m_args s"
proof -
  let ?s0 = "resetCompiler_callback cs s"
  have s0: "history ?s0 = history s @ [SetSources (m_sourceCodes s)]" "files ?s0 = files s"
    "m_args ?s0 = m_args s"
    by (simp_all add: resetCompiler_callback_def)
  obtain s1 es where t: "tryCompile cs ?s0 = (Inr (), s1)"
    "history s1 = history ?s0 @ Print ''Running compilation phases...'' # es" "quiet es"
    "files s1 = files ?s0" "m_args s1 = m_args ?s0"
    using tryCompile_effect[of cs ?s0] by blast
  have h: "history s1 = history s @ (SetSources (m_sourceCodes s) # Print ''Running compilation phases...'' # es)"
    using t(2) s0(1) by simp
  show ?thesis
    using t(1,3,4,5) s0(2,3) h by (auto simp: quiet_def)
qed

lemma for_each_member:
  assumes ext: "\<And>n ch out. n \<in> set ns \<Longrightarrow> body n ch = Inr out \<Longrightarrow> \<exists>extra. out = ch @ extra"
    and hit: "\<And>ch out. body m ch = Inr out \<Longrightarrow> r \<in> set out"
    and mem: "m \<in> set ns" and run: "for_each body ns ch = Inr out"
  shows "r \<in> set out"
  using ext mem run
proof (induction ns arbitrary: ch)
  case Nil
  then show ?case by simp
next
  case (Cons n ns)
  from Cons.prems(3) obtain ch1 where f: "body n ch = Inr ch1" and t: "for_each body ns ch1 = Inr out"
    by (auto split: sum.splits)
  have ext': "\<And>n ch out. n \<in> set ns \<Longrightarrow> body n ch = Inr out \<Longrightarrow> \<exists>extra. out = ch @ extra"
    using Cons.prems(1) by (meson list.set_intros(2))
  show ?case
  proof (cases "m \<in> set ns")
    case True
    show ?thesis by (rule Cons.IH[OF _ True t]) (rule ext')
  next
    case False
    then have "m = n" using Cons.prems(2) by simp
    then have "r \<in> set ch1" using hit f by blast
    moreover have "\<exists>extra. out = ch1 @ extra \<and> list_all (\<lambda>x. True) extra"
    proof (rule for_each_extends[OF _ t])
      fix n ch' out'
      assume "n \<in> set ns" "body n ch' = Inr out'"
      then show "\<exists>extra. out' = ch' @ extra \<and> list_all (\<lambda>x. True) extra"
        using ext' by (simp add: list_all_iff)
    qed
    then obtain extra where "out = ch1 @ extra" by blast
    ultimately show ?thesis by simp
  qed
qed


lemma placeAfter_one_word:
  assumes "validLocation l"
    and "declarationText l = pre @ visibilityToString v @ post"
    and "\<not> occursAsWord (visibilityToString v) None pre"
    and "pre = [] \<or> \<not> isWordChar (last pre)"
    and "\<not> occursAsWord (visibilityToString v) (Some (last (visibilityToString v))) post"
    and "post \<noteq> []" and "\<not> isWordChar (hd post)"
  shows "placeAfterFunctionHeaderKeyword l (visibilityToString v) kw
         = Inr (pre @ visibilityToString v @ CHR '' '' # kw @ post)"
  using placeInText_one_word[OF isKeyword_visibility assms(3,4,5,6,7), of kw] assms(1,2)
  by (simp add: placeAfter_valid)

lemma override_in_function:
  assumes "inheritedEqualRange c f = [s]"
    and "\<not> isConstructor f" and "hasEqualParameterTypes f s" and "\<not> overrides f"
    and "validLocation (fn_location f)"
    and "declarationText (fn_location f) = pre @ visibilityToString (visibility f) @ post"
    and "\<not> occursAsWord (visibilityToString (visibility f)) None pre"
    and "pre = [] \<or> \<not> isWordChar (last pre)"
    and "\<not> occursAsWord (visibilityToString (visibility f))
             (Some (last (visibilityToString (visibility f)))) post"
    and "post \<noteq> []" and "\<not> isWordChar (hd post)"
  shows "OverridingFunction_function c f changes =
           Inr (changes @ [overrideRecord f pre post]
             @ (if virtualSemantics s then []
                else [\<lparr> m_location = fn_location f, m_source = loc_source (fn_location f),
                        m_patch = pre @ visibilityToString (visibility f) @ '' virtual'' @ post,
                        m_level = Unsafe \<rparr>]))"
proof -
  have p: "placeAfterFunctionHeaderKeyword (fn_location f) (visibilityToString (visibility f)) kw
           = Inr (pre @ visibilityToString (visibility f) @ CHR '' '' # kw @ post)" for kw
    using placeAfter_one_word[OF assms(5,6,7,8,9,10,11)] .
  have "OverridingFunction_super f s changes =
           Inr (changes @ [overrideRecord f pre post]
             @ (if virtualSemantics s then []
                else [\<lparr> m_location = fn_location f, m_source = loc_source (fn_location f),
                        m_patch = pre @ visibilityToString (visibility f) @ '' virtual'' @ post,
                        m_level = Unsafe \<rparr>]))"
    using assms(3,4) by (simp add: OverridingFunction_super_def p UpgradeChange_def overrideRecord_def)
  then show ?thesis
    using assms(1,2) by (simp add: OverridingFunction_function_def)
qed

lemma record_in_catalog:
  assumes hit: "\<And>ch. \<exists>others. OverridingFunction_function c f ch = Inr (ch @ [r] @ others)"
    and wf: "wellFormedUnit su" and c: "c \<in> set (contracts su)"
    and f: "f \<in> set (definedFunctions c)"
  shows "\<exists>out. Upgrade060_analyze su source [] = Inr out \<and> r \<in> set out"
proof -
  have v: "list_all (\<lambda>c. needsAbstract c \<longrightarrow> validLocation (ct_location c)) (contracts su)"
    using wf by (auto simp: wellFormedUnit_def list_all_iff)
  let ?A = "map abstractRecord (filter needsAbstract (contracts su))"
  have a: "AbstractContract_analyze su [] = Inr ?A"
    using AbstractContract_for_each_valid[OF v, of "[]"] by (simp add: AbstractContract_analyze_def)
  obtain o1 where o1: "OverridingFunction_analyze su ?A = Inr o1"
    using OverridingFunction_analyze_total[OF wf] by blast
  obtain o2 where o2: "VirtualFunction_analyze su o1 = Inr o2"
    using VirtualFunction_analyze_total[OF wf] by blast
  have inF: "r \<in> set out" if "OverridingFunction_function c f ch = Inr out" for ch out
    using hit[of ch] that by auto
  have inC: "r \<in> set out" if run: "OverridingFunction_endVisit c ch = Inr out" for ch out
  proof (rule for_each_member[OF _ _ f run[unfolded OverridingFunction_endVisit_def]])
    fix n ch' out'
    assume "OverridingFunction_function c n ch' = Inr out'"
    then show "\<exists>extra. out' = ch' @ extra"
      using OverridingFunction_function_unsafe by blast
  next
    fix ch' out'
    assume "OverridingFunction_function c f ch' = Inr out'"
    then show "r \<in> set out'" by (rule inF)
  qed
  have "r \<in> set o1"
  proof (rule for_each_member[OF _ _ c o1[unfolded OverridingFunction_analyze_def]])
    fix n ch' out'
    assume "OverridingFunction_endVisit n ch' = Inr out'"
    then show "\<exists>extra. out' = ch' @ extra"
      using OverridingFunction_endVisit_unsafe by blast
  next
    fix ch' out'
    assume "OverridingFunction_endVisit c ch' = Inr out'"
    then show "r \<in> set out'" by (rule inC)
  qed
  moreover from VirtualFunction_analyze_unsafe[OF o2] obtain e2 where "o2 = o1 @ e2" by blast
  ultimately have "r \<in> set o2" by simp
  moreover have "Upgrade060_analyze su source [] = Inr o2"
    by (simp add: Upgrade060_analyze_def a o1 o2)
  ultimately show ?thesis by blast
qed















section \<open>The claims\<close>





text \<open>
  C2, as amended. The shipped catalog does not run the Array-length-write rule. The rule
  itself, \<open>ArrayLength\<close>, run on a tree, records exactly one Unsafe Change Record for
  every assignment whose left-hand side is a \<open>.length\<close> member access on an array in
  lvalue position, in the order of the traversal: the record is located at the assignment
  and its replacement is empty.
\<close>

theorem array_length_write_record:
  assumes "list_all validLocation (lengthWrites su)"
  shows "ArrayLength_analyze su changes
         = Inr (changes @ map lengthWriteRecord (lengthWrites su))"
  using assms
  by (simp add: ArrayLength_analyze_def lengthWrites_def ArrayLength_for_each_valid)

theorem array_length_write_record_witness:
  "lengthWrites lengthUnit = [exampleLocation 53 65 lengthSource]
   \<and> list_all validLocation (lengthWrites lengthUnit)
   \<and> ArrayLength_analyze lengthUnit []
       = Inr ([] @ map lengthWriteRecord (lengthWrites lengthUnit))
   \<and> map m_patch (map lengthWriteRecord (lengthWrites lengthUnit)) = [[]]"
proof -
  have a: "lengthWrites lengthUnit = [exampleLocation 53 65 lengthSource]"
    by code_simp
  have b: "list_all validLocation (lengthWrites lengthUnit)"
    by code_simp
  have c: "map m_patch (map lengthWriteRecord (lengthWrites lengthUnit)) = [[]]"
    by code_simp
  show ?thesis
    using a b c array_length_write_record[OF b, of "[]"] by blast
qed

text \<open>
  The claim as stated fails: the tree of the example holds such an assignment, and the
  catalog returns no record at all.
\<close>

theorem catalog_skips_array_length:
  "lengthWrites lengthUnit = [exampleLocation 53 65 lengthSource]
   \<and> Upgrade060_analyze lengthUnit lengthSource [] = Inr []"
  by code_simp

text \<open>
  C3, as amended. For a function that is no constructor, has no override annotation and
  has one inherited function in its equal range, of equal parameter types, the
  Override-annotation rule records an Unsafe Change Record carrying \<open>override\<close>: it is
  located at the function, and its replacement is the function's text with a blank and
  \<open>override\<close> behind the visibility keyword, when that text holds the keyword once as
  a whole word, with more text behind it on its line. It is the first record of the rule
  for that function, and the only one when the inherited function has virtual semantics;
  every other record the rule adds for the function is Unsafe as well. The contract may
  declare any number of functions: when the tree's locations are valid the catalog
  returns, and the record is in its list.
\<close>

theorem override_record:
  assumes "inheritedEqualRange c f = [s]"
    and "\<not> isConstructor f" and "hasEqualParameterTypes f s" and "\<not> overrides f"
    and "validLocation (fn_location f)"
    and "declarationText (fn_location f) = pre @ visibilityToString (visibility f) @ post"
    and "\<not> occursAsWord (visibilityToString (visibility f)) None pre"
    and "pre = [] \<or> \<not> isWordChar (last pre)"
    and "\<not> occursAsWord (visibilityToString (visibility f))
             (Some (last (visibilityToString (visibility f)))) post"
    and "post \<noteq> []" and "\<not> isWordChar (hd post)" and "\<not> isLineTerminator (hd post)"
  shows "(\<exists>others. OverridingFunction_function c f changes =
             Inr (changes @ [overrideRecord f pre post] @ others)
           \<and> list_all isUnsafe others
           \<and> (virtualSemantics s \<longrightarrow> others = []))
         \<and> (wellFormedUnit su \<and> c \<in> set (contracts su) \<and> f \<in> set (definedFunctions c)
              \<longrightarrow> (\<exists>out. Upgrade060_analyze su source [] = Inr out
                      \<and> overrideRecord f pre post \<in> set out))"
proof -
  let ?others = "if virtualSemantics s then []
                else [\<lparr> m_location = fn_location f, m_source = loc_source (fn_location f),
                        m_patch = pre @ visibilityToString (visibility f) @ '' virtual'' @ post,
                        m_level = Unsafe \<rparr>]"
  have run: "OverridingFunction_function c f ch =
           Inr (ch @ [overrideRecord f pre post] @ ?others)" for ch
    using override_in_function[OF assms(1,2,3,4,5,6,7,8,9,10,11)] .
  have "list_all isUnsafe ?others" by (simp add: isUnsafe_def)
  moreover have "virtualSemantics s \<longrightarrow> ?others = []" by simp
  ultimately have 1: "\<exists>others. OverridingFunction_function c f changes =
             Inr (changes @ [overrideRecord f pre post] @ others)
           \<and> list_all isUnsafe others
           \<and> (virtualSemantics s \<longrightarrow> others = [])"
    using run[of changes] by blast
  have hit: "\<exists>others. OverridingFunction_function c f ch
                = Inr (ch @ [overrideRecord f pre post] @ others)" for ch
    using run[of ch] by blast
  have 2: "wellFormedUnit su \<and> c \<in> set (contracts su) \<and> f \<in> set (definedFunctions c)
              \<longrightarrow> (\<exists>out. Upgrade060_analyze su source [] = Inr out
                      \<and> overrideRecord f pre post \<in> set out)"
    using record_in_catalog[of c f "overrideRecord f pre post" su source] hit by blast
  from 1 2 show ?thesis by blast
qed

theorem override_record_witness:
  "inheritedEqualRange twoOverridesContract overridingG = [virtualG]
   \<and> \<not> isConstructor overridingG
   \<and> hasEqualParameterTypes overridingG virtualG
   \<and> \<not> overrides overridingG
   \<and> validLocation (fn_location overridingG)
   \<and> declarationText (fn_location overridingG)
       = ''function g() '' @ visibilityToString (visibility overridingG) @ '' {}''
   \<and> \<not> occursAsWord (visibilityToString (visibility overridingG)) None ''function g() ''
   \<and> \<not> isWordChar (last ''function g() '')
   \<and> \<not> occursAsWord (visibilityToString (visibility overridingG))
          (Some (last (visibilityToString (visibility overridingG)))) '' {}''
   \<and> \<not> isWordChar (hd '' {}'') \<and> \<not> isLineTerminator (hd '' {}'')
   \<and> virtualSemantics virtualG
   \<and> m_patch (overrideRecord overridingG ''function g() '' '' {}'')
       = ''function g() public override {}''
   \<and> OverridingFunction_function twoOverridesContract overridingG []
       = Inr [overrideRecord overridingG ''function g() '' '' {}'']
   \<and> definedFunctions twoOverridesContract = [overridingF, overridingG]
   \<and> wellFormedUnit twoOverridesUnit
   \<and> twoOverridesContract \<in> set (contracts twoOverridesUnit)
   \<and> (\<exists>out. Upgrade060_analyze twoOverridesUnit twoOverridesSource [] = Inr out
         \<and> overrideRecord overridingG ''function g() '' '' {}'' \<in> set out)"
proof -
  have h1: "inheritedEqualRange twoOverridesContract overridingG = [virtualG]"
    by (simp add: twoOverridesContract_def overridingG_def)
  have h2: "\<not> isConstructor overridingG"
    by (simp add: overridingG_def)
  have h3: "hasEqualParameterTypes overridingG virtualG"
    by (simp add: hasEqualParameterTypes_def overridingG_def virtualG_def)
  have h4: "\<not> overrides overridingG"
    by (simp add: overridingG_def)
  have h5: "validLocation (fn_location overridingG)"
    by code_simp
  have h6: "declarationText (fn_location overridingG)
       = ''function g() '' @ visibilityToString (visibility overridingG) @ '' {}''"
    by code_simp
  have h7: "\<not> occursAsWord (visibilityToString (visibility overridingG)) None ''function g() ''"
    by code_simp
  have h8: "\<not> isWordChar (last ''function g() '')"
    by code_simp
  have h8': "''function g() '' = [] \<or> \<not> isWordChar (last ''function g() '')"
    using h8 by blast
  have h9: "\<not> occursAsWord (visibilityToString (visibility overridingG))
          (Some (last (visibilityToString (visibility overridingG)))) '' {}''"
    by code_simp
  have h10: "'' {}'' \<noteq> []"
    by simp
  have h11: "\<not> isWordChar (hd '' {}'')"
    by code_simp
  have h12: "\<not> isLineTerminator (hd '' {}'')"
    by code_simp
  have v: "virtualSemantics virtualG"
    by (simp add: virtualG_def)
  have p: "m_patch (overrideRecord overridingG ''function g() '' '' {}'')
       = ''function g() public override {}''"
    by code_simp
  have d: "definedFunctions twoOverridesContract = [overridingF, overridingG]"
    by (simp add: twoOverridesContract_def)
  have wf: "wellFormedUnit twoOverridesUnit"
    by code_simp
  have c: "twoOverridesContract \<in> set (contracts twoOverridesUnit)"
    by (simp add: twoOverridesUnit_def)
  have f: "overridingG \<in> set (definedFunctions twoOverridesContract)"
    using d by simp
  note t = override_record[OF h1 h2 h3 h4 h5 h6 h7 h8' h9 h10 h11 h12,
      of "[]" twoOverridesUnit twoOverridesSource]
  have r: "OverridingFunction_function twoOverridesContract overridingG []
       = Inr [overrideRecord overridingG ''function g() '' '' {}'']"
    using t v by auto
  have m: "\<exists>out. Upgrade060_analyze twoOverridesUnit twoOverridesSource [] = Inr out
         \<and> overrideRecord overridingG ''function g() '' '' {}'' \<in> set out"
    using t wf c f by blast
  show ?thesis
    using h1 h2 h3 h4 h5 h6 h7 h8 h9 h11 h12 v p r d wf c m by blast
qed

text \<open>
  The claim as stated fails: on two contracts written before 0.6.0, the second overriding
  \<open>f\<close> of the first, the catalog returns four Unsafe records, three of them for the
  overriding function.
\<close>

theorem override_example_four_records:
  "Upgrade060_analyze overrideUnit overrideSource [] = Inr overrideFindings
   \<and> length (filter isUnsafe overrideFindings) = 4"
  by code_simp

text \<open>
  C4. On a tree whose locations are valid the catalog returns, and the Safe records of its
  list are exactly one per contract that has an unimplemented member, is not declared
  abstract and is not an interface, in the order of the contracts: the record's location
  is the contract's, and its replacement is \<open>abstract\<close> and a blank followed by the text of
  the declaration.
\<close>

theorem abstract_contract_record:
  assumes "wellFormedUnit su"
  shows "\<exists>out. Upgrade060_analyze su source [] = Inr out
           \<and> filter isSafe out = map abstractRecord (filter needsAbstract (contracts su))"
proof -
  have v: "list_all (\<lambda>c. needsAbstract c \<longrightarrow> validLocation (ct_location c)) (contracts su)"
    using assms by (auto simp: wellFormedUnit_def list_all_iff)
  let ?A = "map abstractRecord (filter needsAbstract (contracts su))"
  have a: "AbstractContract_analyze su [] = Inr ?A"
    using AbstractContract_for_each_valid[OF v, of "[]"] by (simp add: AbstractContract_analyze_def)
  obtain o1 where o1: "OverridingFunction_analyze su ?A = Inr o1"
    using OverridingFunction_analyze_total[OF assms] by blast
  obtain o2 where o2: "VirtualFunction_analyze su o1 = Inr o2"
    using VirtualFunction_analyze_total[OF assms] by blast
  from OverridingFunction_analyze_unsafe[OF o1] obtain e1 where e1: "o1 = ?A @ e1" "list_all isUnsafe e1"
    by blast
  from VirtualFunction_analyze_unsafe[OF o2] obtain e2 where e2: "o2 = o1 @ e2" "list_all isUnsafe e2"
    by blast
  have "Upgrade060_analyze su source [] = Inr o2"
    by (simp add: Upgrade060_analyze_def a o1 o2)
  moreover have "filter isSafe o2 = ?A"
    using e1 e2 by (simp add: filter_safe_unsafe filter_safe_abstractRecords)
  ultimately show ?thesis by blast
qed

theorem abstract_contract_record_witness:
  "wellFormedUnit (miniTree exampleSource)
   \<and> map m_patch (map abstractRecord (filter needsAbstract (contracts (miniTree exampleSource))))
       = [''abstract contract C { function f() public; }'']
   \<and> (\<exists>out. Upgrade060_analyze (miniTree exampleSource) exampleSource [] = Inr out
         \<and> filter isSafe out
             = map abstractRecord (filter needsAbstract (contracts (miniTree exampleSource))))"
proof -
  have wf: "wellFormedUnit (miniTree exampleSource)"
    by code_simp
  have p: "map m_patch (map abstractRecord (filter needsAbstract (contracts (miniTree exampleSource))))
       = [''abstract contract C { function f() public; }'']"
    by code_simp
  show ?thesis
    using wf p abstract_contract_record[OF wf, of exampleSource] by blast
qed

text \<open>
  C5, as amended. The keyword goes on the line of the visibility keyword, directly behind
  it after a single blank, when the function's text holds the visibility keyword once as a
  whole word and more text follows it on its line: the layout heuristic answers
  ``not multi-line'' for such a text, on however many lines its header stands.
\<close>

theorem keyword_placement:
  assumes "validLocation l"
    and "declarationText l = pre @ visibilityToString v @ post"
    and "\<not> occursAsWord (visibilityToString v) None pre"
    and "pre = [] \<or> \<not> isWordChar (last pre)"
    and "\<not> occursAsWord (visibilityToString v) (Some (last (visibilityToString v))) post"
    and "post \<noteq> []" and "\<not> isWordChar (hd post)" and "\<not> isLineTerminator (hd post)"
  shows "\<not> isMultiline (declarationText l) (visibilityToString v)
         \<and> placeAfterFunctionHeaderKeyword l (visibilityToString v) keyword
             = Inr (pre @ visibilityToString v @ CHR '' '' # keyword @ post)"
  using not_multiline_word[OF isKeyword_visibility assms(5,6,7), of pre]
    placeAfter_one_word[OF assms(1,2,3,4,5,6,7), of keyword] assms(2)
  by simp

theorem keyword_placement_witness:
  "validLocation (fn_location multiLineFunction)
   \<and> declarationText (fn_location multiLineFunction)
       = ''function f(\<newline>    uint a\<newline>  ) '' @ visibilityToString Public
           @ '' returns (uint) {\<newline>    return a;\<newline>  }''
   \<and> CHR ''\<newline>'' \<in> set ''function f(\<newline>    uint a\<newline>  ) ''
   \<and> \<not> occursAsWord (visibilityToString Public) None ''function f(\<newline>    uint a\<newline>  ) ''
   \<and> \<not> isWordChar (last ''function f(\<newline>    uint a\<newline>  ) '')
   \<and> \<not> occursAsWord (visibilityToString Public) (Some (last (visibilityToString Public)))
          '' returns (uint) {\<newline>    return a;\<newline>  }''
   \<and> \<not> isWordChar (hd '' returns (uint) {\<newline>    return a;\<newline>  }'')
   \<and> \<not> isLineTerminator (hd '' returns (uint) {\<newline>    return a;\<newline>  }'')
   \<and> \<not> isMultiline (declarationText (fn_location multiLineFunction)) (visibilityToString Public)
   \<and> placeAfterFunctionHeaderKeyword (fn_location multiLineFunction)
         (visibilityToString Public) ''virtual''
       = Inr ''function f(\<newline>    uint a\<newline>  ) public virtual returns (uint) {\<newline>    return a;\<newline>  }''"
proof -
  have a: "validLocation (fn_location multiLineFunction)"
    by code_simp
  have b: "declarationText (fn_location multiLineFunction)
       = ''function f(\<newline>    uint a\<newline>  ) '' @ visibilityToString Public
           @ '' returns (uint) {\<newline>    return a;\<newline>  }''"
    by code_simp
  have n: "CHR ''\<newline>'' \<in> set ''function f(\<newline>    uint a\<newline>  ) ''"
    by simp
  have c: "\<not> occursAsWord (visibilityToString Public) None ''function f(\<newline>    uint a\<newline>  ) ''"
    by code_simp
  have d: "\<not> isWordChar (last ''function f(\<newline>    uint a\<newline>  ) '')"
    by code_simp
  have d': "''function f(\<newline>    uint a\<newline>  ) '' = []
            \<or> \<not> isWordChar (last ''function f(\<newline>    uint a\<newline>  ) '')"
    using d by blast
  have e: "\<not> occursAsWord (visibilityToString Public) (Some (last (visibilityToString Public)))
          '' returns (uint) {\<newline>    return a;\<newline>  }''"
    by code_simp
  have f: "'' returns (uint) {\<newline>    return a;\<newline>  }'' \<noteq> []"
    by simp
  have g: "\<not> isWordChar (hd '' returns (uint) {\<newline>    return a;\<newline>  }'')"
    by code_simp
  have h: "\<not> isLineTerminator (hd '' returns (uint) {\<newline>    return a;\<newline>  }'')"
    by code_simp
  note t = keyword_placement[OF a b c d' e f g h, of "''virtual''"]
  have r: "placeAfterFunctionHeaderKeyword (fn_location multiLineFunction)
         (visibilityToString Public) ''virtual''
       = Inr ''function f(\<newline>    uint a\<newline>  ) public virtual returns (uint) {\<newline>    return a;\<newline>  }''"
    using t by simp
  show ?thesis
    using a b n c d e g h t r by blast
qed

text \<open>
  The claim as stated fails: the header of the example spans two lines, and the keyword is
  placed on the line of the visibility keyword, after a blank.
\<close>

theorem multi_line_header_same_line:
  "CHR ''\<newline>'' \<in> set (takeWhile (\<lambda>c. c \<noteq> CHR ''{'') twoLineFunction)
   \<and> placeAfterFunctionHeaderKeyword (exampleLocation 0 23 twoLineFunction)
         (visibilityToString Public) ''override''
       = Inr ''function f(\<newline>) public override {}''"
  by code_simp

text \<open>
  C6. Every Safe record of the catalog's list, for every tree and text, only adds: its
  replacement is \<open>abstract\<close> and a blank followed by the text that the record's location
  cuts out of the record's source, so that text is a contiguous part of the replacement.
\<close>

theorem safe_record_keeps_original:
  assumes "Upgrade060_analyze su source [] = Inr out" and "r \<in> set out" and "m_level r = Safe"
  shows "\<exists>text. locationText (m_location r) = Inr text
           \<and> m_source r = loc_source (m_location r)
           \<and> m_patch r = ''abstract '' @ text
           \<and> sublist text (m_patch r)"
proof -
  let ?P = "\<lambda>r. \<exists>text. locationText (m_location r) = Inr text
              \<and> m_source r = loc_source (m_location r) \<and> m_patch r = ''abstract '' @ text"
  from assms(1) obtain o0 o1 where
    a: "AbstractContract_analyze su [] = Inr o0" and
    b: "OverridingFunction_analyze su o0 = Inr o1" and
    c: "VirtualFunction_analyze su o1 = Inr out"
    by (auto simp: Upgrade060_analyze_def split: sum.splits)
  from a have "\<exists>extra. o0 = [] @ extra \<and> list_all ?P extra"
    unfolding AbstractContract_analyze_def
    by (rule for_each_extends[rotated]) (rule AbstractContract_endVisit_adds)
  then have p0: "list_all ?P o0" by simp
  from OverridingFunction_analyze_unsafe[OF b] obtain e1 where e1: "o1 = o0 @ e1" "list_all isUnsafe e1"
    by blast
  from VirtualFunction_analyze_unsafe[OF c] obtain e2 where e2: "out = o1 @ e2" "list_all isUnsafe e2"
    by blast
  have "list_all (\<lambda>r. m_level r = Safe \<longrightarrow> ?P r) out"
    using p0 e1 e2 by (simp add: list_all_unsafe_weaken) (simp add: list_all_iff)
  then have "?P r" using assms(2,3) by (simp add: list_all_iff)
  then obtain orig where t: "locationText (m_location r) = Inr orig"
    "m_source r = loc_source (m_location r)" "m_patch r = ''abstract '' @ orig" by blast
  have "sublist orig (m_patch r)" unfolding t(3) by (rule sublist_behind)
  with t show ?thesis by blast
qed

theorem safe_record_keeps_original_witness:
  "Upgrade060_analyze (miniTree exampleSource) exampleSource [] = Inr exampleFindings
   \<and> hd exampleFindings \<in> set exampleFindings
   \<and> m_level (hd exampleFindings) = Safe
   \<and> (\<exists>text. locationText (m_location (hd exampleFindings)) = Inr text
         \<and> m_source (hd exampleFindings) = loc_source (m_location (hd exampleFindings))
         \<and> m_patch (hd exampleFindings) = ''abstract '' @ text
         \<and> sublist text (m_patch (hd exampleFindings)))"
proof -
  have a: "Upgrade060_analyze (miniTree exampleSource) exampleSource [] = Inr exampleFindings"
    by code_simp
  have b: "hd exampleFindings \<in> set exampleFindings"
    by (simp add: exampleFindings_def)
  have c: "m_level (hd exampleFindings) = Safe"
    by (simp add: exampleFindings_def)
  show ?thesis
    using a b c safe_record_keeps_original[OF a b c] by blast
qed






text \<open>
  C9, as amended. In dry-run mode the branch of \<open>processInput\<close> never applies a Change
  Record, writes no file and leaves the snapshot map, the compiler and the disk as they
  are. It runs the catalog at most once per file, in the order of the paths: once on every
  file when the compiler has reached \<open>AnalysisPerformed\<close> and nothing throws, and on no
  file when the compiler has not come that far. \<open>processInput\<close> as a whole, from the
  loaded files on, returns, applies no Change Record and writes no file: the disk stays as
  it was, and the snapshot map as the first compilation left it.
\<close>

theorem dry_run_changes_nothing:
  assumes "\<not> acceptSafe (m_args s)" and "\<not> acceptUnsafe (m_args s)"
  shows "(\<exists>r s'. applyOrLog cs s = Some (r, s')
           \<and> m_sourceCodes s' = m_sourceCodes s \<and> files s' = files s
           \<and> m_compiler s' = m_compiler s
           \<and> history s' = history s @ added s s'
           \<and> filter isChangeApplied (added s s') = []
           \<and> filter isFileWritten (added s s') = []
           \<and> prefix (catalogRuns (added s s')) (map fst (m_sourceCodes s))
           \<and> (case r of
                 Inl ex \<Rightarrow> True
               | Inr u \<Rightarrow>
                   catalogRuns (added s s')
                     = (if stateRank AnalysisPerformed \<le> stateRank (cs_state cs (m_compiler s))
                        then map fst (m_sourceCodes s) else [])))
         \<and> (\<exists>r s'. processInput cs s = Some (r, s')
           \<and> files s' = files s
           \<and> m_sourceCodes s' = m_sourceCodes (snd (tryCompile cs (resetCompiler_callback cs s)))
           \<and> filter isChangeApplied (added s s') = []
           \<and> filter isFileWritten (added s s') = [])"
proof
  obtain r s' es where b: "applyOrLog cs s = Some (r, s')"
    "m_sourceCodes s' = m_sourceCodes s" "files s' = files s" "m_compiler s' = m_compiler s"
    "history s' = history s @ es"
    "filter isChangeApplied es = []" "filter isFileWritten es = []"
    "prefix (catalogRuns es) (map fst (m_sourceCodes s))"
    "case r of Inl ex \<Rightarrow> True
     | Inr u \<Rightarrow> catalogRuns es
           = (if stateRank AnalysisPerformed \<le> stateRank (cs_state cs (m_compiler s))
              then map fst (m_sourceCodes s) else [])"
    using dry_run_branch[OF assms, of cs] by blast
  have a: "added s s' = es" using b(5) by (rule added_extends)
  show "\<exists>r s'. applyOrLog cs s = Some (r, s')
           \<and> m_sourceCodes s' = m_sourceCodes s \<and> files s' = files s
           \<and> m_compiler s' = m_compiler s
           \<and> history s' = history s @ added s s'
           \<and> filter isChangeApplied (added s s') = []
           \<and> filter isFileWritten (added s s') = []
           \<and> prefix (catalogRuns (added s s')) (map fst (m_sourceCodes s))
           \<and> (case r of
                 Inl ex \<Rightarrow> True
               | Inr u \<Rightarrow>
                   catalogRuns (added s s')
                     = (if stateRank AnalysisPerformed \<le> stateRank (cs_state cs (m_compiler s))
                        then map fst (m_sourceCodes s) else []))"
    apply (rule exI[of _ r], rule exI[of _ s'])
    unfolding a using b by simp
next
  obtain s1 e1 where c: "tryCompile cs (resetCompiler_callback cs s) = (Inr (), s1)"
    "history s1 = history s @ e1"
    "filter isChangeApplied e1 = []" "filter isFileWritten e1 = []"
    "files s1 = files s" "m_args s1 = m_args s"
    using first_compilation[of cs s] by blast
  have flags: "\<not> acceptSafe (m_args s1)" "\<not> acceptUnsafe (m_args s1)"
    using assms c(6) by simp_all
  obtain r s2 e2 where b: "applyOrLog cs s1 = Some (r, s2)"
    "m_sourceCodes s2 = m_sourceCodes s1" "files s2 = files s1"
    "history s2 = history s1 @ e2"
    "filter isChangeApplied e2 = []" "filter isFileWritten e2 = []"
    using dry_run_branch[OF flags, of cs] by blast
  have h2: "history s2 = history s @ (e1 @ e2)" using c(2) b(4) by simp
  have s1: "snd (tryCompile cs (resetCompiler_callback cs s)) = s1" using c(1) by simp
  show "\<exists>r s'. processInput cs s = Some (r, s')
           \<and> files s' = files s
           \<and> m_sourceCodes s' = m_sourceCodes (snd (tryCompile cs (resetCompiler_callback cs s)))
           \<and> filter isChangeApplied (added s s') = []
           \<and> filter isFileWritten (added s s') = []"
  proof (cases r)
    case (Inl ex)
    then have "processInput cs s = Some (Inl ex, s2)"
      using c(1) b(1) by (simp add: processInput_def)
    then show ?thesis
      unfolding s1 using b(2,3,5,6) c(3,4,5) by (simp add: added_extends[OF h2])
  next
    case (Inr u)
    define s3 where "s3 = (if stateRank CompilationSuccessful \<le> stateRank (cs_state cs (m_compiler s2))
                    \<or> cs_errors cs (m_compiler s2) = []
                 then emit (Print ''No errors or upgrades found!'') s2
                 else s2)"
    have run: "processInput cs s = Some (Inr True, s3)"
      using c(1) b(1) Inr by (simp add: processInput_def s3_def)
    have "\<exists>e3. history s3 = history s @ (e1 @ e2 @ e3) \<and> filter isChangeApplied e3 = []
              \<and> filter isFileWritten e3 = []"
      using h2 by (auto simp: s3_def)
    then obtain e3 where h3: "history s3 = history s @ (e1 @ e2 @ e3)"
      "filter isChangeApplied e3 = []" "filter isFileWritten e3 = []" by blast
    have f: "files s3 = files s" "m_sourceCodes s3 = m_sourceCodes s1"
      using b(2,3) c(5) by (simp_all add: s3_def)
    show ?thesis
      unfolding s1
      apply (rule exI[of _ "Inr True"], rule exI[of _ s3])
      using run f h3(2,3) b(5,6) c(3,4) by (simp add: added_extends[OF h3(1)])
  qed
qed

theorem dry_run_changes_nothing_witness:
  "\<not> acceptSafe (m_args (compiled dryRun [(''a.sol'', exampleSource)]))
   \<and> \<not> acceptUnsafe (m_args (compiled dryRun [(''a.sol'', exampleSource)]))
   \<and> stateRank AnalysisPerformed
        \<le> stateRank (cs_state miniFrontEnd (m_compiler (compiled dryRun [(''a.sol'', exampleSource)])))
   \<and> (\<exists>s'. applyOrLog miniFrontEnd (compiled dryRun [(''a.sol'', exampleSource)]) = Some (Inr (), s')
           \<and> m_sourceCodes s' = [(''a.sol'', exampleSource)]
           \<and> files s' = files (compiled dryRun [(''a.sol'', exampleSource)])
           \<and> m_compiler s' = m_compiler (compiled dryRun [(''a.sol'', exampleSource)])
           \<and> filter isChangeApplied (added (compiled dryRun [(''a.sol'', exampleSource)]) s') = []
           \<and> filter isFileWritten (added (compiled dryRun [(''a.sol'', exampleSource)]) s') = []
           \<and> catalogRuns (added (compiled dryRun [(''a.sol'', exampleSource)]) s') = [''a.sol''])"
proof -
  let ?s = "compiled dryRun [(''a.sol'', exampleSource)]"
  have a: "\<not> acceptSafe (m_args ?s)"
    unfolding compiled_example_dry by (simp add: dryRun_def)
  have b: "\<not> acceptUnsafe (m_args ?s)"
    unfolding compiled_example_dry by (simp add: dryRun_def)
  have c: "stateRank AnalysisPerformed \<le> stateRank (cs_state miniFrontEnd (m_compiler ?s))"
    unfolding compiled_example_dry by (simp add: miniFrontEnd_def)
  have d: "m_sourceCodes ?s = [(''a.sol'', exampleSource)]"
    unfolding compiled_example_dry by simp
  have e: "fst (the (applyOrLog miniFrontEnd ?s)) = Inr ()"
    by code_simp
  obtain r s' where f: "applyOrLog miniFrontEnd ?s = Some (r, s')"
    "m_sourceCodes s' = m_sourceCodes ?s" "files s' = files ?s" "m_compiler s' = m_compiler ?s"
    "filter isChangeApplied (added ?s s') = []" "filter isFileWritten (added ?s s') = []"
    "case r of Inl ex \<Rightarrow> True
     | Inr u \<Rightarrow> catalogRuns (added ?s s')
          = (if stateRank AnalysisPerformed \<le> stateRank (cs_state miniFrontEnd (m_compiler ?s))
             then map fst (m_sourceCodes ?s) else [])"
    using dry_run_changes_nothing[OF a b, of miniFrontEnd] by blast
  have r: "r = Inr ()" using e f(1) by simp
  have g: "catalogRuns (added ?s s') = [''a.sol'']" using f(7) c unfolding r d by simp
  show ?thesis using a b c f(1-6) g unfolding r d by blast
qed

text \<open>
  The claim as stated fails: a file that does not parse leaves the compiler before
  \<open>AnalysisPerformed\<close>, and the dry run prints its line for the file without running the
  catalog on it.
\<close>

theorem dry_run_without_analysis:
  "\<not> acceptSafe (m_args (compiled dryRun [(''a.sol'', brokenSource)]))
   \<and> \<not> acceptUnsafe (m_args (compiled dryRun [(''a.sol'', brokenSource)]))
   \<and> map fst (m_sourceCodes (compiled dryRun [(''a.sol'', brokenSource)])) = [''a.sol'']
   \<and> applyOrLog miniFrontEnd (compiled dryRun [(''a.sol'', brokenSource)])
       = Some (Inr (), emit (Print ''Analyzing a.sol...'') (compiled dryRun [(''a.sol'', brokenSource)]))
   \<and> catalogRuns (added (compiled dryRun [(''a.sol'', brokenSource)])
        (emit (Print ''Analyzing a.sol...'') (compiled dryRun [(''a.sol'', brokenSource)]))) = []"
  unfolding compiled_broken
  by (simp add: applyOrLog_def dryRun_def analyzeAndLog_def miniFrontEnd_def Let_def added_def emit_def)

text \<open>
  C10. When the compiler's error list is empty on entry to an iteration, the loop of
  \<open>acceptUpgrade\<close> ends at once and returns the state it was given: no file is analysed,
  no Change Record is applied, whatever the catalog would find.
\<close>

theorem no_errors_no_upgrade:
  assumes "cs_errors cs (m_compiler s) = []"
  shows "\<exists>s'. acceptUpgrade_loop cs recompile terminate s = Some (Inr (), s')
           \<and> acceptUpgrade cs s = Some (Inr (), s')
           \<and> s' = s
           \<and> catalogRuns (added s s') = []
           \<and> filter isChangeApplied (added s s') = []"
  using assms by (simp add: acceptUpgrade_def acceptUpgrade_loop.simps)

theorem no_errors_no_upgrade_witness:
  "cs_errors miniFrontEnd (m_compiler (compiled unsafeOnly [(''a.sol'', upgradedSource)])) = []
   \<and> acceptedFinding miniFrontEnd unsafeOnly
        (m_compiler (compiled unsafeOnly [(''a.sol'', upgradedSource)])) (''a.sol'', upgradedSource)
       = Some \<lparr> m_location = exampleLocation 22 42 upgradedSource, m_source = upgradedSource,
                m_patch = ''function f() public virtual;'', m_level = Unsafe \<rparr>
   \<and> acceptUpgrade miniFrontEnd (compiled unsafeOnly [(''a.sol'', upgradedSource)])
       = Some (Inr (), compiled unsafeOnly [(''a.sol'', upgradedSource)])"
proof -
  have a: "cs_errors miniFrontEnd (m_compiler (compiled unsafeOnly [(''a.sol'', upgradedSource)])) = []"
    unfolding compiled_upgraded_unsafe by (simp add: miniFrontEnd_def)
  have b: "acceptedFinding miniFrontEnd unsafeOnly
        (m_compiler (compiled unsafeOnly [(''a.sol'', upgradedSource)])) (''a.sol'', upgradedSource)
       = Some \<lparr> m_location = exampleLocation 22 42 upgradedSource, m_source = upgradedSource,
                m_patch = ''function f() public virtual;'', m_level = Unsafe \<rparr>"
    by code_simp
  show ?thesis
    using a b no_errors_no_upgrade[OF a, of False False] by simp
qed

end
